theory Spec2Isabelle
  imports Complex_Main "HOL-Library.Sublist" "HOL-Library.Multiset"
begin

section \<open>Values and errors\<close>

text \<open>
  The exceptions of Python and NumPy that the modelled functions can raise.
\<close>

datatype error = ValueError | IndexError | ZeroDivisionError | NameError

text \<open>
  A floating-point array element. NumPy's true division does not raise on a zero
  divisor: \<open>0 / 0\<close> is \<open>nan\<close> and \<open>a / 0\<close> is a signed infinity. Finite
  values are idealised as reals (rounding is not modelled).
\<close>

datatype npfloat = Fin real | PInf | NInf | NaN

definition np_divide :: "real \<Rightarrow> real \<Rightarrow> npfloat" where
  "np_divide a b =
     (if b \<noteq> 0 then Fin (a / b)
      else if a = 0 then NaN
      else if 0 < a then PInf else NInf)"

fun np_times :: "npfloat \<Rightarrow> real \<Rightarrow> npfloat" where
  "np_times (Fin r) c = Fin (r * c)"
| "np_times NaN c = NaN"
| "np_times PInf c = (if 0 < c then PInf else if c < 0 then NInf else NaN)"
| "np_times NInf c = (if 0 < c then NInf else if c < 0 then PInf else NaN)"

fun np_plus :: "npfloat \<Rightarrow> real \<Rightarrow> npfloat" where
  "np_plus (Fin r) c = Fin (r + c)"
| "np_plus v c = v"

fun np_add :: "npfloat \<Rightarrow> npfloat \<Rightarrow> npfloat" where
  "np_add (Fin a) (Fin b) = Fin (a + b)"
| "np_add NaN v = NaN"
| "np_add v NaN = NaN"
| "np_add PInf NInf = NaN"
| "np_add NInf PInf = NaN"
| "np_add PInf v = PInf"
| "np_add v PInf = PInf"
| "np_add NInf v = NInf"
| "np_add v NInf = NInf"

fun is_finite :: "npfloat \<Rightarrow> bool" where
  "is_finite (Fin r) = True"
| "is_finite v = False"

fun in_interval :: "real \<Rightarrow> real \<Rightarrow> npfloat \<Rightarrow> bool" where
  "in_interval lo hi (Fin r) = (lo \<le> r \<and> r \<le> hi)"
| "in_interval lo hi v = False"

section \<open>Pixel scaling\<close>

text \<open>
  An image is the list of its pixel values and a batch is a list of images; \<open>x.min()\<close>
  ranges over every pixel of the batch and raises \<open>ValueError\<close> on an array with no
  element. The source:
  \<^verbatim>\<open>
  def scale(x, feature_range=(-1, 1)):
      x = ((x - x.min())/(255 - x.min()))
      min, max = feature_range
      x = x * (max - min) + min
      return x
  \<close>
\<close>

type_synonym image = "real list"

definition scale :: "image list \<Rightarrow> real \<times> real \<Rightarrow> error + npfloat list list" where
  "scale x feature_range =
     (if concat x = [] then Inl ValueError
      else
        let x_min = Min (set (concat x));
            x1 = map (map (\<lambda>p. np_divide (p - x_min) (255 - x_min))) x;
            (min', max') = feature_range
        in Inr (map (map (\<lambda>v. np_plus (np_times v (max' - min')) min')) x1))"

text \<open>
  With the default range and a batch minimum \<open>m\<close> other than 255, the function applied
  to each pixel.
\<close>

definition scale_pixel :: "real \<Rightarrow> real \<Rightarrow> real" where
  "scale_pixel m p = (p - m) / (255 - m) * 2 - 1"

section \<open>Python integers and slices\<close>

text \<open>
  \<open>int(r)\<close> truncates towards zero. A slice bound \<open>k\<close> of a sequence of length \<open>n\<close>
  counts from the end when negative and is clamped to \<open>0..n\<close>; slicing never raises.
\<close>

definition py_int :: "real \<Rightarrow> int" where
  "py_int r = (if 0 \<le> r then \<lfloor>r\<rfloor> else \<lceil>r\<rceil>)"

definition slice_bound :: "nat \<Rightarrow> int \<Rightarrow> nat" where
  "slice_bound n k = (if k < 0 then nat (max (int n + k) 0) else nat (min k (int n)))"

definition slice_to :: "'a list \<Rightarrow> int \<Rightarrow> 'a list" where
  "slice_to xs k = take (slice_bound (length xs) k) xs"

definition slice_from :: "'a list \<Rightarrow> int \<Rightarrow> 'a list" where
  "slice_from xs k = drop (slice_bound (length xs) k) xs"

definition slice :: "'a list \<Rightarrow> int \<Rightarrow> int \<Rightarrow> 'a list" where
  "slice xs i j =
     (let a = slice_bound (length xs) i; b = slice_bound (length xs) j
      in take (b - a) (drop a xs))"

text \<open>
  \<open>range(i, n, step)\<close> for a positive step. The zero step is excluded by the caller
  (the floor division before the loop raises first) and a negative step gives the empty
  range when \<open>0 \<le> i \<le> n\<close>.
\<close>

function py_range :: "nat \<Rightarrow> nat \<Rightarrow> nat \<Rightarrow> nat list" where
  "py_range i n step = (if step = 0 \<or> n \<le> i then [] else i # py_range (i + step) n step)"
  by pat_completeness auto
termination
  by (relation "measure (\<lambda>(i, n, step). n - i)") auto

declare py_range.simps [simp del]

text \<open>
  Integer-array indexing \<open>xs[idx]\<close> raises \<open>IndexError\<close> when an index is out of
  bounds (the indices here come from \<open>np.arange\<close> and are never negative).
\<close>

definition np_take :: "'a list \<Rightarrow> nat list \<Rightarrow> error + 'a list" where
  "np_take xs idx =
     (if \<forall>i \<in> set idx. i < length xs then Inr (map ((!) xs) idx) else Inl IndexError)"

section \<open>The Dataset class\<close>

text \<open>
  A loaded \<open>.mat\<close> file holds the image array under \<open>'X'\<close>, with the sample index as
  its last axis, and the label array under \<open>'y'\<close>. The image array is represented by
  the list of its slices along the sample axis, so that \<open>X[:,:,:,:k]\<close> is a slice of that
  list and \<open>np.rollaxis(_, 3)\<close>, which makes the sample axis the leading one, leaves the
  representation unchanged.
\<close>

record ('x, 'y) mat =
  mat_X :: "'x list"
  mat_y :: "'y list"

record ('x, 'y, 's) Dataset =
  test_x :: "'x list"
  valid_x :: "'x list"
  test_y :: "'y list"
  valid_y :: "'y list"
  train_x :: "'x list"
  train_y :: "'y list"
  scaler :: "'x list \<Rightarrow> error + 's"
  shuffle :: bool

text \<open>
  The validation fraction is a finite float, idealised as a real.
  \<^verbatim>\<open>
  def __init__(self, train, test, val_frac=0.5, shuffle=False, scale_func=None):
      split_idx = int(len(test['y'])*(1 - val_frac))
      self.test_x, self.valid_x = test['X'][:,:,:,:split_idx], test['X'][:,:,:,split_idx:]
      self.test_y, self.valid_y = test['y'][:split_idx], test['y'][split_idx:]
      self.train_x, self.train_y = train['X'], train['y']
      ...
      if scale_func is None: self.scaler = scale
      else: self.scaler = scale_func
      self.shuffle = shuffle
  \<close>
\<close>

definition Dataset_init ::
  "(image, 'y) mat \<Rightarrow> (image, 'y) mat \<Rightarrow> real \<Rightarrow> bool
    \<Rightarrow> (image list \<Rightarrow> error + npfloat list list) option
    \<Rightarrow> (image, 'y, npfloat list list) Dataset" where
  "Dataset_init train test val_frac shuffle' scale_func =
     (let split_idx = py_int (real (length (mat_y test)) * (1 - val_frac))
      in \<lparr> test_x = slice_to (mat_X test) split_idx,
           valid_x = slice_from (mat_X test) split_idx,
           test_y = slice_to (mat_y test) split_idx,
           valid_y = slice_from (mat_y test) split_idx,
           train_x = mat_X train,
           train_y = mat_y train,
           scaler = (case scale_func of None \<Rightarrow> (\<lambda>x. scale x (-1, 1)) | Some f \<Rightarrow> f),
           shuffle = shuffle' \<rparr>)"

text \<open>
  The method \<open>batches\<close> reads the module-level name \<open>dataset\<close>, not \<open>self\<close>, for the
  length of the index array. That name is bound to the object itself, to another
  \<open>Dataset\<close>, or to nothing.
  \<^verbatim>\<open>
  def batches(self, batch_size):
      if self.shuffle:
          idx = np.arange(len(dataset.train_x))
          np.random.shuffle(idx)
          self.train_x = self.train_x[idx]
          self.train_y = self.train_y[idx]
      n_batches = len(self.train_y)//batch_size
      for ii in range(0, len(self.train_y), batch_size):
          x = self.train_x[ii:ii+batch_size]
          y = self.train_y[ii:ii+batch_size]
          yield self.scaler(x), y
  \<close>
  The random generator is a state of type \<open>'r\<close>; \<open>np.random.shuffle\<close> is a function
  from an index array and that state to the shuffled array and the next state. The
  batch size is a Python integer: zero raises in the floor division, a negative one gives
  an empty range. The model returns all the pairs the generator yields; when the scaler
  raises on some batch, the iteration ends there and the model returns the exception.
\<close>

datatype ('x, 'y, 's) global_dataset =
  This | Other "('x, 'y, 's) Dataset" | Unbound

definition shuffle_train ::
  "(nat list \<Rightarrow> 'r \<Rightarrow> nat list \<times> 'r) \<Rightarrow> ('x, 'y, 's) global_dataset
    \<Rightarrow> ('x, 'y, 's) Dataset \<Rightarrow> 'r \<Rightarrow> error + ('x, 'y, 's) Dataset \<times> 'r" where
  "shuffle_train np_shuffle dataset self r =
     (if shuffle self then
        (case dataset of
           Unbound \<Rightarrow> Inl NameError
         | _ \<Rightarrow>
           let n = length (train_x (case dataset of Other d \<Rightarrow> d | _ \<Rightarrow> self));
               (idx, r') = np_shuffle [0..<n] r
           in (case np_take (train_x self) idx of
                 Inl e \<Rightarrow> Inl e
               | Inr tx \<Rightarrow>
                 (case np_take (train_y self) idx of
                    Inl e \<Rightarrow> Inl e
                  | Inr ty \<Rightarrow> Inr (self\<lparr>train_x := tx, train_y := ty\<rparr>, r'))))
      else Inr (self, r))"

fun yield_batches ::
  "('x list \<Rightarrow> error + 's) \<Rightarrow> 'x list \<Rightarrow> 'y list \<Rightarrow> int \<Rightarrow> nat list
    \<Rightarrow> error + ('s \<times> 'y list) list" where
  "yield_batches sc tx ty batch_size [] = Inr []"
| "yield_batches sc tx ty batch_size (ii # rest) =
     (let x = slice tx (int ii) (int ii + batch_size);
          y = slice ty (int ii) (int ii + batch_size)
      in case sc x of
           Inl e \<Rightarrow> Inl e
         | Inr sx \<Rightarrow>
           (case yield_batches sc tx ty batch_size rest of
              Inl e \<Rightarrow> Inl e
            | Inr later \<Rightarrow> Inr ((sx, y) # later)))"

definition batches ::
  "(nat list \<Rightarrow> 'r \<Rightarrow> nat list \<times> 'r) \<Rightarrow> ('x, 'y, 's) global_dataset
    \<Rightarrow> ('x, 'y, 's) Dataset \<Rightarrow> int \<Rightarrow> 'r
    \<Rightarrow> error + ('s \<times> 'y list) list \<times> ('x, 'y, 's) Dataset \<times> 'r" where
  "batches np_shuffle dataset self batch_size r =
     (case shuffle_train np_shuffle dataset self r of
        Inl e \<Rightarrow> Inl e
      | Inr (self', r') \<Rightarrow>
        if batch_size = 0 then Inl ZeroDivisionError
        else
          let starts = (if batch_size < 0 then []
                        else py_range 0 (length (train_y self')) (nat batch_size))
          in (case yield_batches (scaler self') (train_x self') (train_y self')
                     batch_size starts of
                Inl e \<Rightarrow> Inl e
              | Inr yielded \<Rightarrow> Inr (yielded, self', r')))"

section \<open>The loss module\<close>

text \<open>
  TensorFlow's \<open>tf.nn.sigmoid_cross_entropy_with_logits\<close> computes, for logits \<open>x\<close> and
  labels \<open>z\<close> of the same shape, \<open>max(x, 0) - x * z + log(1 + exp(-abs(x)))\<close> elementwise,
  and rejects operands of different shapes. \<open>tf.reduce_mean\<close> of a tensor with no element
  is \<open>nan\<close>. A tensor of per-sample scalars is the list of its elements.
\<close>

definition logit_form :: "real \<Rightarrow> real \<Rightarrow> real" where
  "logit_form x z = max x 0 - x * z + ln (1 + exp (- \<bar>x\<bar>))"

definition sigmoid_cross_entropy_with_logits :: "real list \<Rightarrow> real list \<Rightarrow> error + real list" where
  "sigmoid_cross_entropy_with_logits logits labels =
     (if length logits \<noteq> length labels then Inl ValueError
      else Inr (map2 logit_form logits labels))"

definition reduce_mean :: "real list \<Rightarrow> npfloat" where
  "reduce_mean t = np_divide (sum_list t) (real (length t))"

definition ones_like :: "real list \<Rightarrow> real list" where
  "ones_like t = map (\<lambda>_. 1) t"

definition zeros_like :: "real list \<Rightarrow> real list" where
  "zeros_like t = map (\<lambda>_. 0) t"

text \<open>
  The bodies of \<open>generator\<close> and \<open>discriminator\<close> are left open in the source, so the
  two networks are parameters: the generator maps a noise batch to an image batch and the
  discriminator, whose weights are shared between its two calls (\<open>reuse=True\<close>), maps an
  image batch to its sigmoid outputs and its logits.
  \<^verbatim>\<open>
  def model_loss(input_real, input_z, output_dim, alpha=0.2):
      g_model = generator(input_z, output_dim, alpha=alpha)
      d_model_real, d_logits_real = discriminator(input_real, alpha=alpha)
      d_model_fake, d_logits_fake = discriminator(g_model, reuse=True, alpha=alpha)
      d_loss_real = tf.reduce_mean(
          tf.nn.sigmoid_cross_entropy_with_logits(logits=d_logits_real, labels=tf.ones_like(d_model_real)))
      d_loss_fake = tf.reduce_mean(
          tf.nn.sigmoid_cross_entropy_with_logits(logits=d_logits_fake, labels=tf.zeros_like(d_model_fake)))
      g_loss = tf.reduce_mean(
          tf.nn.sigmoid_cross_entropy_with_logits(logits=d_logits_fake, labels=tf.ones_like(d_model_fake)))
      d_loss = d_loss_real + d_loss_fake
      return d_loss, g_loss
  \<close>
\<close>

definition model_loss ::
  "('z \<Rightarrow> nat \<Rightarrow> real \<Rightarrow> 'x) \<Rightarrow> ('x \<Rightarrow> real \<Rightarrow> real list \<times> real list)
    \<Rightarrow> 'x \<Rightarrow> 'z \<Rightarrow> nat \<Rightarrow> real \<Rightarrow> error + npfloat \<times> npfloat" where
  "model_loss generator discriminator input_real input_z output_dim alpha =
     (let g_model = generator input_z output_dim alpha;
          (d_model_real, d_logits_real) = discriminator input_real alpha;
          (d_model_fake, d_logits_fake) = discriminator g_model alpha
      in case sigmoid_cross_entropy_with_logits d_logits_real (ones_like d_model_real) of
           Inl e \<Rightarrow> Inl e
         | Inr ce_real \<Rightarrow>
           (case sigmoid_cross_entropy_with_logits d_logits_fake (zeros_like d_model_fake) of
              Inl e \<Rightarrow> Inl e
            | Inr ce_fake \<Rightarrow>
              (case sigmoid_cross_entropy_with_logits d_logits_fake (ones_like d_model_fake) of
                 Inl e \<Rightarrow> Inl e
               | Inr ce_gen \<Rightarrow>
                 let d_loss_real = reduce_mean ce_real;
                     d_loss_fake = reduce_mean ce_fake;
                     g_loss = reduce_mean ce_gen;
                     d_loss = np_add d_loss_real d_loss_fake
                 in Inr (d_loss, g_loss))))"

text \<open>
  The textbook quantities the losses are compared with: the sigmoid, the binary
  cross-entropy of a probability against a target, and the mean of a non-empty batch.
\<close>

definition sigmoid :: "real \<Rightarrow> real" where
  "sigmoid x = 1 / (1 + exp (- x))"

definition binary_cross_entropy :: "real \<Rightarrow> real \<Rightarrow> real" where
  "binary_cross_entropy target p = - (target * ln p + (1 - target) * ln (1 - p))"

definition mean :: "real list \<Rightarrow> real" where
  "mean t = sum_list t / real (length t)"

section \<open>Optimizer setup\<close>

text \<open>
  The variables of the graph: the trainable ones by name, and the rest (moving statistics
  of the normalization layers, optimizer slots) as one component. The operations in
  \<open>UPDATE_OPS\<close> refresh moving statistics, which are not trainable. The call
  \<open>AdamOptimizer(learning_rate, beta1).minimize(loss, var_list)\<close> assigns a new value to
  each variable of \<open>var_list\<close> and to its own slots; the Adam rule itself is a parameter.
  \<^verbatim>\<open>
  def model_opt(d_loss, g_loss, learning_rate, beta1):
      t_vars = tf.trainable_variables()
      d_vars = [var for var in t_vars if var.name.startswith('discriminator')]
      g_vars = [var for var in t_vars if var.name.startswith('generator')]
      with tf.control_dependencies(tf.get_collection(tf.GraphKeys.UPDATE_OPS)):
          d_train_opt = tf.train.AdamOptimizer(learning_rate, beta1=beta1).minimize(d_loss, var_list=d_vars)
          g_train_opt = tf.train.AdamOptimizer(learning_rate, beta1=beta1).minimize(g_loss, var_list=g_vars)
      return d_train_opt, g_train_opt
  \<close>
\<close>

record ('v, 'a) variables =
  trainable :: "string \<Rightarrow> 'v"
  non_trainable :: 'a

record ('l, 'f, 'v, 'a) adam =
  adam_value :: "real \<Rightarrow> real \<Rightarrow> 'l \<Rightarrow> 'f \<Rightarrow> ('v, 'a) variables \<Rightarrow> string \<Rightarrow> 'v"
  adam_slots :: "real \<Rightarrow> real \<Rightarrow> 'l \<Rightarrow> string list \<Rightarrow> 'f \<Rightarrow> ('v, 'a) variables \<Rightarrow> 'a"

definition startswith :: "string \<Rightarrow> string \<Rightarrow> bool" where
  "startswith name p = prefix p name"

definition minimize ::
  "('l, 'f, 'v, 'a) adam \<Rightarrow> real \<Rightarrow> real \<Rightarrow> 'l \<Rightarrow> string list \<Rightarrow> 'f
    \<Rightarrow> ('v, 'a) variables \<Rightarrow> ('v, 'a) variables" where
  "minimize opt learning_rate beta1 loss var_list feed s =
     \<lparr> trainable = (\<lambda>name. if name \<in> set var_list
                             then adam_value opt learning_rate beta1 loss feed s name
                             else trainable s name),
       non_trainable = adam_slots opt learning_rate beta1 loss var_list feed s \<rparr>"

definition model_opt ::
  "('l, 'f, 'v, 'a) adam \<Rightarrow> ('f \<Rightarrow> ('v, 'a) variables \<Rightarrow> 'a) \<Rightarrow> string list
    \<Rightarrow> 'l \<Rightarrow> 'l \<Rightarrow> real \<Rightarrow> real
    \<Rightarrow> ('f \<Rightarrow> ('v, 'a) variables \<Rightarrow> ('v, 'a) variables)
      \<times> ('f \<Rightarrow> ('v, 'a) variables \<Rightarrow> ('v, 'a) variables)" where
  "model_opt opt update_ops t_vars d_loss g_loss learning_rate beta1 =
     (let d_vars = filter (\<lambda>var. startswith var ''discriminator'') t_vars;
          g_vars = filter (\<lambda>var. startswith var ''generator'') t_vars;
          d_train_opt = (\<lambda>feed s. minimize opt learning_rate beta1 d_loss d_vars feed
                                     (s\<lparr>non_trainable := update_ops feed s\<rparr>));
          g_train_opt = (\<lambda>feed s. minimize opt learning_rate beta1 g_loss g_vars feed
                                     (s\<lparr>non_trainable := update_ops feed s\<rparr>))
      in (d_train_opt, g_train_opt))"

section \<open>The training loop\<close>

text \<open>
  The network object gives the four session operations the loop runs: the two update
  steps and the evaluations of the two loss tensors, each a function of the fed batches
  and of the session's variables of type \<open>'v\<close>. Evaluating a tensor returns a value and
  leaves the variables as they are.
\<close>

record ('v, 'b, 'z, 'l) GAN =
  d_opt :: "'b \<Rightarrow> 'z \<Rightarrow> 'v \<Rightarrow> 'v"
  g_opt :: "'z \<Rightarrow> 'b \<Rightarrow> 'v \<Rightarrow> 'v"
  d_loss :: "'z \<Rightarrow> 'b \<Rightarrow> 'v \<Rightarrow> 'l"
  g_loss :: "'z \<Rightarrow> 'v \<Rightarrow> 'l"

record ('r, 'z) np_random =
  np_shuffle :: "nat list \<Rightarrow> 'r \<Rightarrow> nat list \<times> 'r"
  np_uniform :: "int \<times> int \<Rightarrow> 'r \<Rightarrow> 'z \<times> 'r"

text \<open>
  Plotting and file output: \<open>view_samples\<close> followed by \<open>plt.show\<close>, \<open>saver.save\<close>
  and \<open>pkl.dump\<close> either return or raise; what they raise, if anything, is a parameter.
\<close>

record ('v, 'g) effects =
  view_samples :: "'g list \<Rightarrow> error option"
  saver_save :: "'v \<Rightarrow> error option"
  pickle_dump :: "'g list \<Rightarrow> error option"

text \<open>
  The calls of a run, in the order they are made, each with what it returned: the call
  of \<open>dataset.batches\<close> with the generator state it leaves, a noise draw with the state
  it was drawn from, the two update steps with the variables they leave in the session,
  the evaluation of the losses with the recorded pair, the sampling with the generated
  images. The calls inside the batch loop carry the value of \<open>steps\<close>.
\<close>

datatype ('v, 'r, 'b, 'z, 'l, 'g) event =
  NextEpoch 'r
| DrawNoise int 'r 'z
| RunDOpt int 'b 'z 'v
| RunGOpt int 'b 'z 'v
| EvalLosses int "'l \<times> 'l"
| GenSamples int 'g

record ('v, 'r, 'b, 'z, 'l, 'g) train_state =
  sess :: 'v
  rng :: 'r
  steps :: int
  losses :: "('l \<times> 'l) list"
  samples :: "'g list"
  events :: "('v, 'r, 'b, 'z, 'l, 'g) event list"

text \<open>
  The body of the batch loop:
  \<^verbatim>\<open>
  steps += 1
  batch_z = np.random.uniform(-1, 1, size=(batch_size, z_size))
  _ = sess.run(net.d_opt, feed_dict={net.input_real: x, net.input_z: batch_z})
  _ = sess.run(net.g_opt, feed_dict={net.input_z: batch_z, net.input_real: x})
  if steps % print_every == 0:
      train_loss_d = net.d_loss.eval({net.input_z: batch_z, net.input_real: x})
      train_loss_g = net.g_loss.eval({net.input_z: batch_z})
      losses.append((train_loss_d, train_loss_g))
  if steps % show_every == 0:
      gen_samples = sess.run(generator(net.input_z, 3, reuse=True, training=False),
                             feed_dict={net.input_z: sample_z})
      samples.append(gen_samples)
      _ = view_samples(-1, samples, 6, 12, figsize=figsize)
      plt.show()
  \<close>
  Printing the losses is left out.
\<close>

definition train_step ::
  "('v, 'b, 'z, 'l) GAN \<Rightarrow> ('z \<Rightarrow> 'v \<Rightarrow> 'g) \<Rightarrow> ('r, 'z) np_random \<Rightarrow> ('v, 'g) effects
    \<Rightarrow> 'z \<Rightarrow> int \<Rightarrow> int \<Rightarrow> int \<Rightarrow> int \<Rightarrow> 'b \<times> 'y
    \<Rightarrow> ('v, 'r, 'b, 'z, 'l, 'g) train_state
    \<Rightarrow> error + ('v, 'r, 'b, 'z, 'l, 'g) train_state" where
  "train_step net run_generator rnd io sample_z batch_size z_size print_every show_every
       xy st =
     (let x = fst xy;
          steps' = steps st + 1;
          (batch_z, r') = np_uniform rnd (batch_size, z_size) (rng st);
          s1 = d_opt net x batch_z (sess st);
          s2 = g_opt net batch_z x s1;
          ev = events st @ [DrawNoise steps' (rng st) batch_z, RunDOpt steps' x batch_z s1,
                            RunGOpt steps' x batch_z s2]
      in if print_every = 0 then Inl ZeroDivisionError
         else
           let logging = (steps' mod print_every = 0);
               train_loss = (d_loss net batch_z x s2, g_loss net batch_z s2);
               losses' = (if logging then losses st @ [train_loss] else losses st);
               ev1 = (if logging then ev @ [EvalLosses steps' train_loss] else ev)
           in if show_every = 0 then Inl ZeroDivisionError
              else if steps' mod show_every = 0 then
                (let gen_samples = run_generator sample_z s2;
                     samples' = samples st @ [gen_samples]
                 in case view_samples io samples' of
                      Some e \<Rightarrow> Inl e
                    | None \<Rightarrow>
                      Inr \<lparr> sess = s2, rng = r', steps = steps', losses = losses',
                            samples = samples',
                            events = ev1 @ [GenSamples steps' gen_samples] \<rparr>)
              else Inr \<lparr> sess = s2, rng = r', steps = steps', losses = losses',
                         samples = samples st, events = ev1 \<rparr>)"

fun run_batches ::
  "('b \<times> 'y \<Rightarrow> 'st \<Rightarrow> error + 'st) \<Rightarrow> ('b \<times> 'y) list \<Rightarrow> 'st \<Rightarrow> error + 'st" where
  "run_batches body [] st = Inr st"
| "run_batches body (xy # rest) st =
     (case body xy st of Inl e \<Rightarrow> Inl e | Inr st' \<Rightarrow> run_batches body rest st')"

text \<open>
  One pass of \<open>for e in range(epochs)\<close> asks the dataset for its batches, which shuffles
  the training set in place when shuffling is on, and runs the body on each of them.
\<close>

fun run_epochs ::
  "('v, 'b, 'z, 'l) GAN \<Rightarrow> ('z \<Rightarrow> 'v \<Rightarrow> 'g) \<Rightarrow> ('r, 'z) np_random \<Rightarrow> ('v, 'g) effects
    \<Rightarrow> 'z \<Rightarrow> ('x, 'y, 'b) global_dataset \<Rightarrow> int \<Rightarrow> int \<Rightarrow> int \<Rightarrow> int \<Rightarrow> nat
    \<Rightarrow> ('x, 'y, 'b) Dataset \<Rightarrow> ('v, 'r, 'b, 'z, 'l, 'g) train_state
    \<Rightarrow> error + ('x, 'y, 'b) Dataset \<times> ('v, 'r, 'b, 'z, 'l, 'g) train_state" where
  "run_epochs net run_generator rnd io sample_z glob batch_size z_size print_every
       show_every 0 dataset st = Inr (dataset, st)"
| "run_epochs net run_generator rnd io sample_z glob batch_size z_size print_every
       show_every (Suc e) dataset st =
     (case batches (np_shuffle rnd) glob dataset batch_size (rng st) of
        Inl err \<Rightarrow> Inl err
      | Inr (yielded, dataset', r') \<Rightarrow>
        (case run_batches
                (train_step net run_generator rnd io sample_z batch_size z_size
                   print_every show_every)
                yielded (st\<lparr>rng := r', events := events st @ [NextEpoch r']\<rparr>) of
           Inl err \<Rightarrow> Inl err
         | Inr st' \<Rightarrow>
           run_epochs net run_generator rnd io sample_z glob batch_size z_size
             print_every show_every e dataset' st'))"

text \<open>
  \<^verbatim>\<open>
  def train(net, dataset, epochs, batch_size, print_every=10, show_every=100, figsize=(5,5)):
      saver = tf.train.Saver()
      sample_z = np.random.uniform(-1, 1, size=(72, z_size))
      samples, losses = [], []
      steps = 0
      with tf.Session() as sess:
          sess.run(tf.global_variables_initializer())
          for e in range(epochs):
              for x, y in dataset.batches(batch_size):
                  ...
          saver.save(sess, './checkpoints/generator.ckpt')
      with open('samples.pkl', 'wb') as f:
          pkl.dump(samples, f)
      return losses, samples
  \<close>
  \<open>train_loop\<close> is the function up to the end of the two loops and returns the whole
  state; \<open>train\<close> goes on with the checkpoint and the samples file and returns what the
  source returns. The initial variables are those the initializer produces; building
  the saver and opening the session are taken to succeed.
\<close>

definition train_loop ::
  "('v, 'b, 'z, 'l) GAN \<Rightarrow> ('z \<Rightarrow> 'v \<Rightarrow> 'g) \<Rightarrow> ('r, 'z) np_random \<Rightarrow> ('v, 'g) effects
    \<Rightarrow> ('x, 'y, 'b) global_dataset \<Rightarrow> int \<Rightarrow> 'v \<Rightarrow> 'r
    \<Rightarrow> ('x, 'y, 'b) Dataset \<Rightarrow> int \<Rightarrow> int \<Rightarrow> int \<Rightarrow> int
    \<Rightarrow> error + ('x, 'y, 'b) Dataset \<times> ('v, 'r, 'b, 'z, 'l, 'g) train_state" where
  "train_loop net run_generator rnd io glob z_size init r0 dataset epochs batch_size
       print_every show_every =
     (let (sample_z, r1) = np_uniform rnd (72, z_size) r0
      in run_epochs net run_generator rnd io sample_z glob batch_size z_size
           print_every show_every (nat epochs) dataset
           \<lparr> sess = init, rng = r1, steps = 0, losses = [], samples = [], events = [] \<rparr>)"

definition train ::
  "('v, 'b, 'z, 'l) GAN \<Rightarrow> ('z \<Rightarrow> 'v \<Rightarrow> 'g) \<Rightarrow> ('r, 'z) np_random \<Rightarrow> ('v, 'g) effects
    \<Rightarrow> ('x, 'y, 'b) global_dataset \<Rightarrow> int \<Rightarrow> 'v \<Rightarrow> 'r
    \<Rightarrow> ('x, 'y, 'b) Dataset \<Rightarrow> int \<Rightarrow> int \<Rightarrow> int \<Rightarrow> int
    \<Rightarrow> error + ('l \<times> 'l) list \<times> 'g list" where
  "train net run_generator rnd io glob z_size init r0 dataset epochs batch_size
       print_every show_every =
     (case train_loop net run_generator rnd io glob z_size init r0 dataset epochs batch_size
             print_every show_every of
        Inl err \<Rightarrow> Inl err
      | Inr (dataset', st) \<Rightarrow>
        (case saver_save io (sess st) of
           Some err \<Rightarrow> Inl err
         | None \<Rightarrow>
           (case pickle_dump io (samples st) of
              Some err \<Rightarrow> Inl err
            | None \<Rightarrow> Inr (losses st, samples st))))"

section \<open>Predicates on runs\<close>

text \<open>
  The calls of one pass through the body of the batch loop at step \<open>k\<close>, from the
  generator state \<open>r\<close> and the session variables \<open>s\<close>, on the real batch \<open>x\<close>.
\<close>

definition step_events ::
  "('v, 'b, 'z, 'l) GAN \<Rightarrow> ('z \<Rightarrow> 'v \<Rightarrow> 'g) \<Rightarrow> ('r, 'z) np_random \<Rightarrow> 'z
    \<Rightarrow> int \<Rightarrow> int \<Rightarrow> int \<Rightarrow> int \<Rightarrow> int \<Rightarrow> 'r \<Rightarrow> 'b \<Rightarrow> 'v
    \<Rightarrow> ('v, 'r, 'b, 'z, 'l, 'g) event list" where
  "step_events net run_generator rnd sample_z batch_size z_size print_every show_every
       k r x s =
     (let z = fst (np_uniform rnd (batch_size, z_size) r);
          s1 = d_opt net x z s;
          s2 = g_opt net z x s1
      in [DrawNoise k r z, RunDOpt k x z s1, RunGOpt k x z s2]
         @ (if k mod print_every = 0
            then [EvalLosses k (d_loss net z x s2, g_loss net z s2)] else [])
         @ (if k mod show_every = 0 then [GenSamples k (run_generator sample_z s2)] else []))"




fun logged_steps :: "('v, 'r, 'b, 'z, 'l, 'g) event list \<Rightarrow> int list" where
  "logged_steps [] = []"
| "logged_steps (EvalLosses k p # evs) = k # logged_steps evs"
| "logged_steps (e # evs) = logged_steps evs"

text \<open>
  Replaying a sequence of calls from given session variables and a given generator
  state: each call must be the next one the loop can make and must have returned what the
  operation returns on the variables and the generator state reached so far. The replay
  keeps the step count, the variables, the generator state, the feed of the last pass,
  and the loss and sample histories; it fails on any other sequence.
\<close>

datatype ('b, 'z) phase = Idle | Drawn 'z | DiscDone 'b 'z | GenDone 'b 'z

record ('v, 'r, 'b, 'z, 'l, 'g) replayed =
  r_steps :: int
  r_sess :: 'v
  r_rng :: 'r
  r_phase :: "('b, 'z) phase"
  r_losses :: "('l \<times> 'l) list"
  r_samples :: "'g list"

definition between_passes :: "('b, 'z) phase \<Rightarrow> bool" where
  "between_passes p = (case p of Idle \<Rightarrow> True | GenDone x z \<Rightarrow> True | _ \<Rightarrow> False)"

definition replay_event ::
  "('v, 'b, 'z, 'l) GAN \<Rightarrow> ('z \<Rightarrow> 'v \<Rightarrow> 'g) \<Rightarrow> ('r, 'z) np_random \<Rightarrow> 'z \<Rightarrow> int \<Rightarrow> int
    \<Rightarrow> ('v, 'r, 'b, 'z, 'l, 'g) event \<Rightarrow> ('v, 'r, 'b, 'z, 'l, 'g) replayed
    \<Rightarrow> ('v, 'r, 'b, 'z, 'l, 'g) replayed option" where
  "replay_event net run_generator rnd sample_z batch_size z_size e c =
     (case e of
        NextEpoch r' \<Rightarrow>
          if between_passes (r_phase c) then Some (c\<lparr>r_rng := r', r_phase := Idle\<rparr>)
          else None
      | DrawNoise k r z \<Rightarrow>
          if between_passes (r_phase c) \<and> k = r_steps c + 1 \<and> r = r_rng c
             \<and> z = fst (np_uniform rnd (batch_size, z_size) r)
          then Some (c\<lparr>r_steps := k, r_rng := snd (np_uniform rnd (batch_size, z_size) r),
                       r_phase := Drawn z\<rparr>)
          else None
      | RunDOpt k x z s1 \<Rightarrow>
          if r_phase c = Drawn z \<and> k = r_steps c \<and> s1 = d_opt net x z (r_sess c)
          then Some (c\<lparr>r_sess := s1, r_phase := DiscDone x z\<rparr>)
          else None
      | RunGOpt k x z s2 \<Rightarrow>
          if r_phase c = DiscDone x z \<and> k = r_steps c \<and> s2 = g_opt net z x (r_sess c)
          then Some (c\<lparr>r_sess := s2, r_phase := GenDone x z\<rparr>)
          else None
      | EvalLosses k p \<Rightarrow>
          (case r_phase c of
             GenDone x z \<Rightarrow>
               if k = r_steps c \<and> p = (d_loss net z x (r_sess c), g_loss net z (r_sess c))
               then Some (c\<lparr>r_losses := r_losses c @ [p]\<rparr>)
               else None
           | _ \<Rightarrow> None)
      | GenSamples k g \<Rightarrow>
          (case r_phase c of
             GenDone x z \<Rightarrow>
               if k = r_steps c \<and> g = run_generator sample_z (r_sess c)
               then Some (c\<lparr>r_samples := r_samples c @ [g]\<rparr>)
               else None
           | _ \<Rightarrow> None))"

fun replay ::
  "('v, 'b, 'z, 'l) GAN \<Rightarrow> ('z \<Rightarrow> 'v \<Rightarrow> 'g) \<Rightarrow> ('r, 'z) np_random \<Rightarrow> 'z \<Rightarrow> int \<Rightarrow> int
    \<Rightarrow> ('v, 'r, 'b, 'z, 'l, 'g) event list \<Rightarrow> ('v, 'r, 'b, 'z, 'l, 'g) replayed
    \<Rightarrow> ('v, 'r, 'b, 'z, 'l, 'g) replayed option" where
  "replay net run_generator rnd sample_z batch_size z_size [] c = Some c"
| "replay net run_generator rnd sample_z batch_size z_size (e # evs) c =
     (case replay_event net run_generator rnd sample_z batch_size z_size e c of
        None \<Rightarrow> None
      | Some c' \<Rightarrow> replay net run_generator rnd sample_z batch_size z_size evs c')"

definition replays_to ::
  "('v, 'r, 'b, 'z, 'l, 'g) replayed \<Rightarrow> ('v, 'r, 'b, 'z, 'l, 'g) train_state \<Rightarrow> bool" where
  "replays_to c st =
     (r_steps c = steps st \<and> r_sess c = sess st \<and> r_rng c = rng st
      \<and> between_passes (r_phase c)
      \<and> r_losses c = losses st \<and> r_samples c = samples st)"


definition logging_invariant ::
  "int \<Rightarrow> ('v, 'r, 'b, 'z, 'l, 'g) train_state \<Rightarrow> bool" where
  "logging_invariant print_every st =
     (0 \<le> steps st \<and> int (length (losses st)) = steps st div print_every
      \<and> logged_steps (events st) = filter (\<lambda>k. k mod print_every = 0) [1..steps st])"

text \<open>The calls of a state replay, from a given start, to the rest of that state.\<close>

definition replayed_run ::
  "('v, 'b, 'z, 'l) GAN \<Rightarrow> ('z \<Rightarrow> 'v \<Rightarrow> 'g) \<Rightarrow> ('r, 'z) np_random \<Rightarrow> 'z \<Rightarrow> int \<Rightarrow> int
    \<Rightarrow> ('v, 'r, 'b, 'z, 'l, 'g) replayed \<Rightarrow> ('v, 'r, 'b, 'z, 'l, 'g) train_state \<Rightarrow> bool" where
  "replayed_run net run_generator rnd sample_z batch_size z_size c0 st =
     (\<exists>c. replay net run_generator rnd sample_z batch_size z_size (events st) c0 = Some c
         \<and> replays_to c st)"

text \<open>Two runs that differ in the logging interval only agree on what is trained.\<close>

definition same_training ::
  "('v, 'r, 'b, 'z, 'l, 'g) train_state \<Rightarrow> ('v, 'r, 'b, 'z, 'l, 'g) train_state \<Rightarrow> bool" where
  "same_training a b =
     (sess a = sess b \<and> rng a = rng b \<and> steps a = steps b \<and> samples a = samples b)"

section \<open>Example data\<close>

definition demo_train :: "(image, nat) mat" where
  "demo_train = \<lparr> mat_X = [[0], [51], [102], [255]], mat_y = [1, 2, 3, 4] \<rparr>"

definition demo_small :: "(image, nat) mat" where
  "demo_small = \<lparr> mat_X = [[0], [255]], mat_y = [1, 2] \<rparr>"

definition demo_test :: "(image, nat) mat" where
  "demo_test = \<lparr> mat_X = [[10], [20], [30], [40]], mat_y = [5, 6, 7, 8] \<rparr>"

definition reversing :: "nat list \<Rightarrow> unit \<Rightarrow> nat list \<times> unit" where
  "reversing idx r = (rev idx, r)"

text \<open>
  A generator that turns a noise value into a one-sample batch and a discriminator whose
  logit for a sample is the sample itself.
\<close>

definition demo_generator :: "real \<Rightarrow> nat \<Rightarrow> real \<Rightarrow> real list" where
  "demo_generator z output_dim alpha = [z]"

definition demo_discriminator :: "real list \<Rightarrow> real \<Rightarrow> real list \<times> real list" where
  "demo_discriminator x alpha = (map sigmoid x, x)"

text \<open>A network on integer variables, a deterministic generator state and an optimizer.\<close>

definition demo_adam :: "(unit, unit, int, unit) adam" where
  "demo_adam = \<lparr> adam_value = (\<lambda>lr b1 l f s name. trainable s name + 1),
                 adam_slots = (\<lambda>lr b1 l vs f s. ()) \<rparr>"

definition demo_vars :: "(int, unit) variables" where
  "demo_vars = \<lparr> trainable = (\<lambda>name. 0), non_trainable = () \<rparr>"

definition demo_net :: "(int, npfloat list list, nat, int) GAN" where
  "demo_net = \<lparr> d_opt = (\<lambda>x z v. 2 * v + 1), g_opt = (\<lambda>z x v. 2 * v),
                d_loss = (\<lambda>z x v. v), g_loss = (\<lambda>z v. v + int z) \<rparr>"

definition demo_random :: "(nat, nat) np_random" where
  "demo_random = \<lparr> np_shuffle = (\<lambda>idx r. (rev idx, r + 1)),
                   np_uniform = (\<lambda>size r. (r, r + 1)) \<rparr>"

definition demo_effects :: "(int, int) effects" where
  "demo_effects = \<lparr> view_samples = (\<lambda>ss. None), saver_save = (\<lambda>v. None),
                    pickle_dump = (\<lambda>ss. None) \<rparr>"

definition demo_run_generator :: "nat \<Rightarrow> int \<Rightarrow> int" where
  "demo_run_generator z v = v + int z"

section \<open>Properties of scaling\<close>

lemma scale_default_finite:
  assumes ne: "concat x \<noteq> []" and lt: "Min (set (concat x)) \<noteq> 255"
  shows "scale x (-1, 1) = Inr (map (map (\<lambda>p. Fin (scale_pixel (Min (set (concat x))) p))) x)"
  using ne lt by (simp add: scale_def Let_def np_divide_def scale_pixel_def o_def)

lemma affine_mono: "(u::real) \<le> v \<Longrightarrow> u * 2 - 1 \<le> v * 2 - 1"
  by simp

lemma affine_bounds: "0 \<le> (u::real) \<Longrightarrow> u \<le> 1 \<Longrightarrow> -1 \<le> u * 2 - 1 \<and> u * 2 - 1 \<le> 1"
  by simp

lemma scale_pixel_mono:
  assumes "m < 255" and "a \<le> b"
  shows "scale_pixel m a \<le> scale_pixel m b"
proof -
  have "(a - m) / (255 - m) \<le> (b - m) / (255 - m)"
    using assms by (simp add: divide_right_mono)
  then show ?thesis unfolding scale_pixel_def by (rule affine_mono)
qed

lemma scale_pixel_bounds:
  assumes "m < 255" and "m \<le> p" and "p \<le> 255"
  shows "-1 \<le> scale_pixel m p \<and> scale_pixel m p \<le> 1"
proof -
  have "0 \<le> (p - m) / (255 - m)" using assms by simp
  moreover have "(p - m) / (255 - m) \<le> 1" using assms by simp
  ultimately show ?thesis unfolding scale_pixel_def by (rule affine_bounds)
qed

lemma batch_min_less:
  assumes "p \<in> set (concat x)" and "p < 255"
  shows "Min (set (concat x)) < 255"
proof -
  have "Min (set (concat x)) \<le> p" using assms(1) by (intro Min_le) auto
  then show ?thesis using assms(2) by simp
qed

text \<open>
  Claim C2, as stated, fails: a batch whose pixels are all 255 lies in [0,255], and the
  function returns \<open>nan\<close> for it, which is not in [-1,1].
\<close>

theorem scale_all_white_counterexample:
  "scale [[255]] (-1, 1) = Inr [[NaN]] \<and> \<not> in_interval (-1) 1 NaN"
  by (simp add: scale_def np_divide_def)

text \<open>
  Claim C2, amended: for every batch whose pixels all lie in [0,255] and that has a pixel
  strictly below 255, \<open>scale\<close> returns a batch of the same shape, obtained by applying one
  monotonic function to every pixel, and every output value is finite and lies in [-1,1].
\<close>

theorem scale_range_monotonic:
  assumes range: "\<forall>p \<in> set (concat x). 0 \<le> p \<and> p \<le> 255"
    and dark: "\<exists>p \<in> set (concat x). p < 255"
  shows "\<exists>f. scale x (-1, 1) = Inr (map (map (\<lambda>p. Fin (f p))) x)
           \<and> (\<forall>a b. a \<le> b \<longrightarrow> f a \<le> f b)
           \<and> (\<forall>p \<in> set (concat x). in_interval (-1) 1 (Fin (f p)))"
proof -
  let ?m = "Min (set (concat x))"
  from dark obtain q where q: "q \<in> set (concat x)" "q < 255" by blast
  then have ne: "concat x \<noteq> []" by (metis empty_iff list.set(1))
  have m: "?m < 255" using q by (rule batch_min_less)
  have eq: "scale x (-1, 1) = Inr (map (map (\<lambda>p. Fin (scale_pixel ?m p))) x)"
    using ne m by (intro scale_default_finite) auto
  have mono: "\<forall>a b. a \<le> b \<longrightarrow> scale_pixel ?m a \<le> scale_pixel ?m b"
    using m by (simp add: scale_pixel_mono)
  have bnd: "\<forall>p \<in> set (concat x). in_interval (-1) 1 (Fin (scale_pixel ?m p))"
  proof
    fix p assume p: "p \<in> set (concat x)"
    then have "?m \<le> p" by (intro Min_le) auto
    moreover have "p \<le> 255" using range p by blast
    ultimately show "in_interval (-1) 1 (Fin (scale_pixel ?m p))"
      using scale_pixel_bounds [OF m] by simp
  qed
  from eq mono bnd show ?thesis by blast
qed

theorem scale_range_monotonic_witness:
  "scale [[0, 51], [255]] (-1, 1) = Inr [[Fin (-1), Fin (-3/5)], [Fin 1]]"
proof -
  have r: "\<forall>p \<in> set (concat [[0, 51], [255::real]]). 0 \<le> p \<and> p \<le> 255" by simp
  have d: "\<exists>p \<in> set (concat [[0, 51], [255::real]]). p < 255" by simp
  have "\<exists>v. scale [[0, 51], [255]] (-1, 1) = Inr v"
    using scale_range_monotonic [OF r d] by (elim exE conjE) (erule exI)
  then show ?thesis by (simp add: scale_def np_divide_def)
qed


lemma scale_default_nan:
  assumes ne: "concat x \<noteq> []" and eq: "Min (set (concat x)) = 255"
    and top: "\<forall>p \<in> set (concat x). p \<le> 255"
  shows "scale x (-1, 1) = Inr (map (map (\<lambda>p. NaN)) x)"
proof -
  have all: "\<forall>p \<in> set (concat x). p = 255"
  proof
    fix p assume p: "p \<in> set (concat x)"
    then have "Min (set (concat x)) \<le> p" by (intro Min_le) auto
    with eq top p show "p = 255" by force
  qed
  have "map (map (\<lambda>p. np_plus (np_times (np_divide (p - 255) 0) 2) (- 1))) x
        = map (map (\<lambda>p. NaN)) x"
  proof (intro map_cong refl)
    fix xs p assume "xs \<in> set x" "p \<in> set xs"
    then have "p \<in> set (concat x)" by auto
    with all have "p = 255" by blast
    then show "np_plus (np_times (np_divide (p - 255) 0) 2) (- 1) = NaN"
      by (simp add: np_divide_def)
  qed
  with ne eq show ?thesis by (simp add: scale_def Let_def o_def)
qed

text \<open>
  Claim C10: on a batch of pixels in [0,255], the divisor \<open>255 - x.min()\<close> of \<open>scale\<close>
  is non-zero exactly when the batch minimum is below 255, that is when some pixel is
  below 255; on a batch whose pixels are all 255 every output is \<open>nan\<close> (the quotient
  \<open>0 / 0\<close>), and the outputs are all finite exactly when the minimum is below 255.
\<close>

theorem scale_divisor_guard:
  assumes ne: "concat x \<noteq> []"
    and range: "\<forall>p \<in> set (concat x). 0 \<le> p \<and> p \<le> 255"
  shows "((255 - Min (set (concat x)) \<noteq> 0) = (Min (set (concat x)) < 255))
       \<and> ((Min (set (concat x)) < 255) = (\<exists>p \<in> set (concat x). p < 255))
       \<and> ((\<forall>p \<in> set (concat x). p = 255) \<longrightarrow>
            scale x (-1, 1) = Inr (map (map (\<lambda>p. NaN)) x))
       \<and> ((\<exists>v. scale x (-1, 1) = Inr v \<and> (\<forall>e \<in> set (concat v). is_finite e))
            = (Min (set (concat x)) < 255))"
proof -
  let ?m = "Min (set (concat x))"
  have fin: "finite (set (concat x))" and nonempty: "set (concat x) \<noteq> {}"
    using ne by simp_all
  have mem: "?m \<in> set (concat x)" using fin nonempty by (rule Min_in)
  have le: "?m \<le> 255" using range mem by blast
  have c1: "(255 - ?m \<noteq> 0) = (?m < 255)" using le by auto
  have c2: "(?m < 255) = (\<exists>p \<in> set (concat x). p < 255)"
  proof
    assume "?m < 255" with mem show "\<exists>p \<in> set (concat x). p < 255" by blast
  next
    assume "\<exists>p \<in> set (concat x). p < 255"
    then obtain p where "p \<in> set (concat x)" "p < 255" by blast
    then show "?m < 255" by (rule batch_min_less)
  qed
  have c3: "(\<forall>p \<in> set (concat x). p = 255) \<longrightarrow>
            scale x (-1, 1) = Inr (map (map (\<lambda>p. NaN)) x)"
  proof
    assume all: "\<forall>p \<in> set (concat x). p = 255"
    with mem have "?m = 255" by blast
    then show "scale x (-1, 1) = Inr (map (map (\<lambda>p. NaN)) x)"
      using ne range by (intro scale_default_nan) auto
  qed
  have c4: "(\<exists>v. scale x (-1, 1) = Inr v \<and> (\<forall>e \<in> set (concat v). is_finite e))
            = (?m < 255)"
  proof (cases "?m < 255")
    case True
    then have "scale x (-1, 1) = Inr (map (map (\<lambda>p. Fin (scale_pixel ?m p))) x)"
      using ne by (intro scale_default_finite) auto
    moreover have "\<forall>e \<in> set (concat (map (map (\<lambda>p. Fin (scale_pixel ?m p))) x)). is_finite e"
      by auto
    ultimately show ?thesis using True by blast
  next
    case False
    with le have m: "?m = 255" by simp
    have nan: "scale x (-1, 1) = Inr (map (map (\<lambda>p. NaN)) x)"
      using ne m range by (intro scale_default_nan) auto
    obtain xs p where "xs \<in> set x" "p \<in> set xs" using mem by auto
    then have "NaN \<in> set (concat (map (map (\<lambda>p. NaN)) x))" by force
    then have "\<not> (\<forall>e \<in> set (concat (map (map (\<lambda>p. NaN)) x)). is_finite e)"
      by (metis is_finite.simps(4))
    with nan False show ?thesis by auto
  qed
  from c1 c2 c3 c4 show ?thesis by blast
qed

theorem scale_divisor_guard_witness:
  "scale [[255], [255]] (-1, 1) = Inr [[NaN], [NaN]]"
proof -
  have ne: "concat [[255], [255::real]] \<noteq> []" by simp
  have r: "\<forall>p \<in> set (concat [[255], [255::real]]). 0 \<le> p \<and> p \<le> 255" by simp
  have a: "\<forall>p \<in> set (concat [[255], [255::real]]). p = 255" by simp
  have "scale [[255], [255]] (-1, 1) = Inr (map (map (\<lambda>p. NaN)) [[255], [255::real]])"
    using scale_divisor_guard [OF ne r] a by blast
  then show ?thesis by simp
qed

section \<open>Properties of the Dataset constructor\<close>

lemma slice_bound_le: "slice_bound n k \<le> n"
  by (auto simp: slice_bound_def)

lemma take_as_map: "k \<le> length xs \<Longrightarrow> take k xs = map ((!) xs) [0..<k]"
  by (simp add: list_eq_iff_nth_eq)

lemma drop_as_map: "drop k xs = map ((!) xs) [k..<length xs]"
  by (simp add: list_eq_iff_nth_eq)

text \<open>
  Claim C3: for a test collection of \<open>n\<close> images and \<open>n\<close> labels and any validation
  fraction, the constructor splits the index range \<open>0..<n\<close> into a test part and a
  validation part that have no index in common and together are the whole range; the
  images and the labels of each partition are those at the indices of that part, in order,
  so images and labels stay paired, and the two partition sizes add up to \<open>n\<close>.
\<close>

theorem Dataset_init_partition:
  assumes X: "length (mat_X tst) = n" and Y: "length (mat_y tst) = n"
  shows "\<exists>ti vi. ti @ vi = [0..<n] \<and> set ti \<inter> set vi = {}
           \<and> test_x (Dataset_init trn tst val_frac sh sf) = map ((!) (mat_X tst)) ti
           \<and> test_y (Dataset_init trn tst val_frac sh sf) = map ((!) (mat_y tst)) ti
           \<and> valid_x (Dataset_init trn tst val_frac sh sf) = map ((!) (mat_X tst)) vi
           \<and> valid_y (Dataset_init trn tst val_frac sh sf) = map ((!) (mat_y tst)) vi
           \<and> length (valid_x (Dataset_init trn tst val_frac sh sf))
               + length (test_x (Dataset_init trn tst val_frac sh sf)) = n
           \<and> length (valid_y (Dataset_init trn tst val_frac sh sf))
               + length (test_y (Dataset_init trn tst val_frac sh sf)) = n"
proof -
  define k where "k = slice_bound n (py_int (real n * (1 - val_frac)))"
  have k: "k \<le> n" unfolding k_def by (rule slice_bound_le)
  have tx: "test_x (Dataset_init trn tst val_frac sh sf) = take k (mat_X tst)"
    and ty: "test_y (Dataset_init trn tst val_frac sh sf) = take k (mat_y tst)"
    and vx: "valid_x (Dataset_init trn tst val_frac sh sf) = drop k (mat_X tst)"
    and vy: "valid_y (Dataset_init trn tst val_frac sh sf) = drop k (mat_y tst)"
    using X Y by (simp_all add: Dataset_init_def Let_def slice_to_def slice_from_def k_def)
  have "[0..<k] @ [k..<n] = [0..<n]" using k by (metis le_add_diff_inverse upt_add_eq_append zero_le)
  moreover have "set [0..<k] \<inter> set [k..<n] = {}" by auto
  moreover have "take k (mat_X tst) = map ((!) (mat_X tst)) [0..<k]"
    using k X by (simp add: take_as_map)
  moreover have "take k (mat_y tst) = map ((!) (mat_y tst)) [0..<k]"
    using k Y by (simp add: take_as_map)
  moreover have "drop k (mat_X tst) = map ((!) (mat_X tst)) [k..<n]"
    using X drop_as_map [of k "mat_X tst"] by simp
  moreover have "drop k (mat_y tst) = map ((!) (mat_y tst)) [k..<n]"
    using Y drop_as_map [of k "mat_y tst"] by simp
  moreover have "length (drop k (mat_X tst)) + length (take k (mat_X tst)) = n"
    using k X by simp
  moreover have "length (drop k (mat_y tst)) + length (take k (mat_y tst)) = n"
    using k Y by simp
  ultimately show ?thesis unfolding tx ty vx vy by blast
qed


theorem Dataset_init_partition_witness:
  "length (valid_x (Dataset_init demo_train demo_test (1/2) False None))
     + length (test_x (Dataset_init demo_train demo_test (1/2) False None)) = 4
   \<and> test_x (Dataset_init demo_train demo_test (1/2) False None) = [[10], [20]]
   \<and> valid_y (Dataset_init demo_train demo_test (1/2) False None) = [7, 8]"
proof -
  have X: "length (mat_X demo_test) = 4" and Y: "length (mat_y demo_test) = 4"
    by (simp_all add: demo_test_def)
  have "length (valid_x (Dataset_init demo_train demo_test (1/2) False None))
     + length (test_x (Dataset_init demo_train demo_test (1/2) False None)) = 4"
    using Dataset_init_partition [OF X Y, of demo_train "1/2" False None]
    by (elim exE conjE)
  then show ?thesis
    by (simp add: Dataset_init_def demo_test_def py_int_def slice_to_def slice_from_def
          slice_bound_def)
qed

section \<open>Properties of batches\<close>

lemma ceil_div_step:
  assumes "0 < step" and "i < (n::nat)"
  shows "Suc ((n - (i + step) + step - 1) div step) = (n - i + step - 1) div step"
proof (cases "i + step \<le> n")
  case True
  then have "n - i + step - 1 = (n - (i + step) + step - 1) + step" using assms by linarith
  then have "(n - i + step - 1) div step = (n - (i + step) + step - 1) div step + 1"
    using assms(1) by (simp only: div_add_self2)
  then show ?thesis by simp
next
  case False
  then have a: "n - (i + step) + step - 1 = step - 1" by linarith
  have b: "(step - 1) div step = 0" using assms(1) by (intro div_less) linarith
  have "n - i + step - 1 = step + (n - i - 1)" using assms by linarith
  moreover have "n - i - 1 < step" using False assms by linarith
  ultimately have "(n - i + step - 1) div step = 1"
    using assms(1) by (simp only: div_add_self1) simp
  then show ?thesis using a b by simp
qed


lemma py_range_length:
  "0 < step \<Longrightarrow> length (py_range i n step) = (n - i + step - 1) div step"
proof (induction i n step rule: py_range.induct)
  case (1 i n step)
  show ?case
  proof (cases "n \<le> i")
    case True
    then have "py_range i n step = []" by (subst py_range.simps) simp
    moreover have "(n - i + step - 1) div step = 0" using True 1(2) by simp
    ultimately show ?thesis by simp
  next
    case False
    then have "py_range i n step = i # py_range (i + step) n step"
      using 1(2) by (subst py_range.simps) simp
    then have "length (py_range i n step) = Suc (length (py_range (i + step) n step))"
      by simp
    also have "length (py_range (i + step) n step) = (n - (i + step) + step - 1) div step"
      using 1(2) False by (intro 1(1)) auto
    also have "Suc ((n - (i + step) + step - 1) div step) = (n - i + step - 1) div step"
      using 1(2) False by (intro ceil_div_step) auto
    finally show ?thesis .
  qed
qed

lemma slice_pos:
  assumes "0 < bs"
  shows "slice xs (int a) (int a + bs) = take (nat bs) (drop a xs)"
proof (cases "a \<le> length xs")
  case True
  have "slice_bound (length xs) (int a) = a" using True by (simp add: slice_bound_def)
  moreover have "slice_bound (length xs) (int a + bs) = min (a + nat bs) (length xs)"
    using assms by (auto simp: slice_bound_def)
  ultimately show ?thesis using True
    by (simp add: slice_def Let_def min_def take_all_iff)
next
  case False
  then have "slice_bound (length xs) (int a) = length xs" by (simp add: slice_bound_def)
  then show ?thesis using False by (simp add: slice_def Let_def)
qed


lemma slice_map: "slice (map f xs) i j = map f (slice xs i j)"
  by (simp add: slice_def Let_def take_map drop_map)

lemma set_slice: "set (slice xs i j) \<subseteq> set xs"
  by (auto simp: slice_def Let_def dest: in_set_takeD in_set_dropD)

lemma yield_batches_all2:
  "yield_batches sc tx ty bs starts = Inr yl \<Longrightarrow>
   list_all2 (\<lambda>ii b. snd b = slice ty (int ii) (int ii + bs)
                \<and> sc (slice tx (int ii) (int ii + bs)) = Inr (fst b)) starts yl"
proof (induction starts arbitrary: yl)
  case Nil
  then show ?case by simp
next
  case (Cons ii rest)
  from Cons.prems obtain sx later where
    sx: "sc (slice tx (int ii) (int ii + bs)) = Inr sx"
    and later: "yield_batches sc tx ty bs rest = Inr later"
    and yl: "yl = (sx, slice ty (int ii) (int ii + bs)) # later"
    by (auto simp: Let_def split: sum.splits)
  from Cons.IH [OF later] sx yl show ?case by simp
qed

lemma yield_batches_member:
  assumes "yield_batches sc tx ty bs starts = Inr yl" and "b \<in> set yl"
  shows "\<exists>ii. snd b = slice ty (int ii) (int ii + bs)
              \<and> sc (slice tx (int ii) (int ii + bs)) = Inr (fst b)"
proof -
  from assms(2) obtain k where k: "k < length yl" "yl ! k = b"
    by (auto simp: in_set_conv_nth)
  from yield_batches_all2 [OF assms(1)] k show ?thesis
    by (auto simp: list_all2_conv_all_nth)
qed

lemma np_take_Inr:
  "np_take xs idx = Inr ys \<Longrightarrow> ys = map ((!) xs) idx \<and> (\<forall>i \<in> set idx. i < length xs)"
  by (auto simp: np_take_def split: if_splits)

lemma shuffle_train_Inr:
  assumes ok: "shuffle_train shuf dataset self r = Inr (self', r')"
    and len: "length (train_x self) = length (train_y self)"
  shows "\<exists>idx. (\<forall>i \<in> set idx. i < length (train_y self))
           \<and> train_x self' = map ((!) (train_x self)) idx
           \<and> train_y self' = map ((!) (train_y self)) idx
           \<and> scaler self' = scaler self \<and> shuffle self' = shuffle self"
proof (cases "shuffle self")
  case False
  with ok have "self' = self" by (simp add: shuffle_train_def)
  moreover have "train_x self = map ((!) (train_x self)) [0..<length (train_y self)]"
    by (metis len map_nth)
  moreover have "train_y self = map ((!) (train_y self)) [0..<length (train_y self)]"
    by (simp add: map_nth)
  ultimately show ?thesis by (intro exI [of _ "[0..<length (train_y self)]"]) auto
next
  case True
  with ok obtain idx tx ty where
    tx: "np_take (train_x self) idx = Inr tx" and ty: "np_take (train_y self) idx = Inr ty"
    and self': "self' = self\<lparr>train_x := tx, train_y := ty\<rparr>"
    by (auto simp: shuffle_train_def Let_def
             split: global_dataset.splits prod.splits sum.splits)
  from np_take_Inr [OF tx] np_take_Inr [OF ty] self' show ?thesis
    by (intro exI [of _ idx]) auto
qed

lemma scale_pointwise:
  "scale x fr = Inr v \<Longrightarrow> \<exists>f. v = map (map f) x"
  by (auto simp: scale_def Let_def split: if_splits prod.splits)

lemma batches_Inr:
  assumes "batches shuf dataset self batch_size r = Inr (yielded, self', r')"
  shows "\<exists>starts. shuffle_train shuf dataset self r = Inr (self', r')
           \<and> yield_batches (scaler self') (train_x self') (train_y self') batch_size starts
               = Inr yielded
           \<and> batch_size \<noteq> 0
           \<and> starts = (if batch_size < 0 then []
                       else py_range 0 (length (train_y self')) (nat batch_size))"
proof (cases "shuffle_train shuf dataset self r")
  case (Inl e)
  with assms show ?thesis by (simp add: batches_def)
next
  case (Inr p)
  obtain s1 r1 where p: "p = (s1, r1)" by (cases p)
  show ?thesis
  proof (cases "yield_batches (scaler s1) (train_x s1) (train_y s1) batch_size
                  (if batch_size < 0 then []
                   else py_range 0 (length (train_y s1)) (nat batch_size))")
    case (Inl e)
    with assms Inr p show ?thesis by (simp add: batches_def Let_def split: if_splits)
  next
    case yb: (Inr yl)
    with assms Inr p have "batch_size \<noteq> 0 \<and> yl = yielded \<and> s1 = self' \<and> r1 = r'"
      by (simp add: batches_def Let_def split: if_splits)
    with yb Inr p show ?thesis by (cases "batch_size < 0") simp_all
  qed
qed

text \<open>
  Claim C5: when \<open>batches\<close> yields, the training images and labels it leaves behind
  are the original ones rearranged by one and the same index list, and every yielded pair
  is made of the labels at some indices \<open>js\<close> of the original training set and of the
  scaler's result on the images at the same indices in the same order; with the default
  scaler that result is one function applied to each pixel, so position \<open>i\<close> of the image
  batch is the scaled image of label \<open>i\<close>.
\<close>

theorem batches_pairing:
  fixes self :: "(image, 'y, npfloat list list) Dataset"
  assumes ok: "batches shuf dataset self batch_size r = Inr (yielded, self', r')"
    and len: "length (train_x self) = length (train_y self)"
  shows "(\<exists>idx. (\<forall>i \<in> set idx. i < length (train_y self))
            \<and> train_x self' = map ((!) (train_x self)) idx
            \<and> train_y self' = map ((!) (train_y self)) idx)
       \<and> (\<forall>b \<in> set yielded. \<exists>js.
             (\<forall>j \<in> set js. j < length (train_y self))
             \<and> snd b = map ((!) (train_y self)) js
             \<and> scaler self (map ((!) (train_x self)) js) = Inr (fst b)
             \<and> (scaler self = (\<lambda>x. scale x (-1, 1)) \<longrightarrow>
                  (\<exists>f. fst b = map (map f) (map ((!) (train_x self)) js))))"
proof -
  from batches_Inr [OF ok] obtain starts where
    sh: "shuffle_train shuf dataset self r = Inr (self', r')"
    and yb: "yield_batches (scaler self') (train_x self') (train_y self') batch_size starts
             = Inr yielded"
    by blast
  define s1 where "s1 = self'"
  note sh = sh [folded s1_def] and yb = yb [folded s1_def]
  have s1: "self' = s1" by (simp add: s1_def)
  from shuffle_train_Inr [OF sh len] obtain idx where
    idx: "\<forall>i \<in> set idx. i < length (train_y self)"
    and tx: "train_x s1 = map ((!) (train_x self)) idx"
    and ty: "train_y s1 = map ((!) (train_y self)) idx"
    and sc: "scaler s1 = scaler self"
    by blast
  have "\<exists>js. (\<forall>j \<in> set js. j < length (train_y self))
             \<and> snd b = map ((!) (train_y self)) js
             \<and> scaler self (map ((!) (train_x self)) js) = Inr (fst b)
             \<and> (scaler self = (\<lambda>x. scale x (-1, 1)) \<longrightarrow>
                  (\<exists>f. fst b = map (map f) (map ((!) (train_x self)) js)))"
    if b: "b \<in> set yielded" for b
  proof -
    from yield_batches_member [OF yb b] obtain ii where
      y: "snd b = slice (train_y s1) (int ii) (int ii + batch_size)"
      and x: "scaler s1 (slice (train_x s1) (int ii) (int ii + batch_size)) = Inr (fst b)"
      by blast
    let ?js = "slice idx (int ii) (int ii + batch_size)"
    have 1: "\<forall>j \<in> set ?js. j < length (train_y self)"
      using idx set_slice [of idx] by blast
    have 2: "snd b = map ((!) (train_y self)) ?js" using y ty by (simp add: slice_map)
    have 3: "scaler self (map ((!) (train_x self)) ?js) = Inr (fst b)"
      using x tx sc by (simp add: slice_map)
    have 4: "scaler self = (\<lambda>x. scale x (-1, 1)) \<longrightarrow>
               (\<exists>f. fst b = map (map f) (map ((!) (train_x self)) ?js))"
    proof
      assume "scaler self = (\<lambda>x. scale x (-1, 1))"
      with 3 have "scale (map ((!) (train_x self)) ?js) (-1, 1) = Inr (fst b)" by simp
      then show "\<exists>f. fst b = map (map f) (map ((!) (train_x self)) ?js)"
        by (rule scale_pointwise)
    qed
    from 1 2 3 4 show ?thesis by blast
  qed
  moreover have "\<exists>idx. (\<forall>i \<in> set idx. i < length (train_y self))
            \<and> train_x self' = map ((!) (train_x self)) idx
            \<and> train_y self' = map ((!) (train_y self)) idx"
    using idx tx ty s1 by blast
  ultimately show ?thesis by blast
qed

theorem batches_pairing_witness:
  "batches reversing This (Dataset_init demo_train demo_test (1/2) True None) 3 ()
   = Inr ([([[Fin 1], [Fin (-1/2)], [Fin (-1)]], [4, 3, 2]), ([[Fin (-1)]], [1])],
          (Dataset_init demo_train demo_test (1/2) True None)
            \<lparr>train_x := [[255], [102], [51], [0]], train_y := [4, 3, 2, 1]\<rparr>, ())"
proof -
  have ok: "batches reversing This (Dataset_init demo_train demo_test (1/2) True None) 3 ()
   = Inr ([([[Fin 1], [Fin (-1/2)], [Fin (-1)]], [4, 3, 2]), ([[Fin (-1)]], [1])],
          (Dataset_init demo_train demo_test (1/2) True None)
            \<lparr>train_x := [[255], [102], [51], [0]], train_y := [4, 3, 2, 1]\<rparr>, ())"
    by (simp add: batches_def shuffle_train_def Dataset_init_def demo_train_def
          reversing_def np_take_def Let_def py_range.simps slice_def slice_bound_def
          scale_def np_divide_def)
  have len: "length (train_x (Dataset_init demo_train demo_test (1/2) True None))
             = length (train_y (Dataset_init demo_train demo_test (1/2) True None))"
    by (simp add: Dataset_init_def demo_train_def Let_def)
  have "\<exists>idx. (\<forall>i \<in> set idx.
                 i < length (train_y (Dataset_init demo_train demo_test (1/2) True None)))
          \<and> [[255], [102], [51], [0]]
              = map ((!) (train_x (Dataset_init demo_train demo_test (1/2) True None))) idx
          \<and> [4, 3, 2, 1]
              = map ((!) (train_y (Dataset_init demo_train demo_test (1/2) True None))) idx"
    using batches_pairing [OF ok len] by simp
  then show ?thesis using ok by simp
qed

section \<open>The number and the extent of the batches\<close>

lemma py_range_bound: "ii \<in> set (py_range i n step) \<Longrightarrow> ii < n"
proof (induction i n step rule: py_range.induct)
  case (1 i n step)
  show ?case
  proof (cases "step = 0 \<or> n \<le> i")
    case True
    then have "py_range i n step = []" by (subst py_range.simps) simp
    with 1(2) show ?thesis by simp
  next
    case False
    then have "py_range i n step = i # py_range (i + step) n step"
      by (subst py_range.simps) simp
    with 1 False show ?thesis by auto
  qed
qed

lemma concat_chunks:
  "0 < step \<Longrightarrow>
   concat (map (\<lambda>ii. take step (drop ii ys)) (py_range i (length ys) step)) = drop i ys"
proof (induction i "length ys" step rule: py_range.induct)
  case (1 i step)
  show ?case
  proof (cases "length ys \<le> i")
    case True
    then have "py_range i (length ys) step = []" by (subst py_range.simps) simp
    with True show ?thesis by simp
  next
    case False
    then have r: "py_range i (length ys) step = i # py_range (i + step) (length ys) step"
      using 1(2) by (subst py_range.simps) simp
    have "concat (map (\<lambda>ii. take step (drop ii ys)) (py_range (i + step) (length ys) step))
          = drop (i + step) ys"
      using 1 False by simp
    then have "concat (map (\<lambda>ii. take step (drop ii ys)) (py_range i (length ys) step))
          = take step (drop i ys) @ drop step (drop i ys)"
      using r by (simp add: add.commute)
    then show ?thesis by (simp only: append_take_drop_id)
  qed
qed

lemma py_range_nth:
  "k < length (py_range i n step) \<Longrightarrow> py_range i n step ! k = i + k * step"
proof (induction i n step arbitrary: k rule: py_range.induct)
  case (1 i n step)
  show ?case
  proof (cases "step = 0 \<or> n \<le> i")
    case True
    then have "py_range i n step = []" by (subst py_range.simps) simp
    with 1(2) show ?thesis by simp
  next
    case False
    then have r: "py_range i n step = i # py_range (i + step) n step"
      by (subst py_range.simps) simp
    show ?thesis
    proof (cases k)
      case 0
      with r show ?thesis by simp
    next
      case (Suc j)
      with 1(2) r have "j < length (py_range (i + step) n step)" by simp
      with 1(1) False have "py_range (i + step) n step ! j = i + step + j * step" by simp
      with r Suc show ?thesis by simp
    qed
  qed
qed

lemma yield_batches_total:
  assumes "\<forall>ii \<in> set starts. \<exists>s. sc (slice tx (int ii) (int ii + bs)) = Inr s"
  shows "\<exists>yl. yield_batches sc tx ty bs starts = Inr yl"
  using assms
proof (induction starts)
  case Nil
  then show ?case by simp
next
  case (Cons ii rest)
  then obtain s later where "sc (slice tx (int ii) (int ii + bs)) = Inr s"
    and "yield_batches sc tx ty bs rest = Inr later" by auto
  then show ?case by (simp add: Let_def)
qed

lemma yield_batches_labels:
  assumes "yield_batches sc tx ty bs starts = Inr yl"
  shows "map snd yl = map (\<lambda>ii. slice ty (int ii) (int ii + bs)) starts"
  using yield_batches_all2 [OF assms]
  by (induction starts yl rule: list_all2_induct) auto

lemma shuffle_train_consistent:
  assumes len: "length (train_x self) = length (train_y self)"
    and env: "shuffle self \<longrightarrow> dataset = This
                \<and> mset (fst (shuf [0..<length (train_x self)] r))
                    = mset [0..<length (train_x self)]"
  shows "\<exists>self' r' idx. shuffle_train shuf dataset self r = Inr (self', r')
           \<and> mset idx = mset [0..<length (train_y self)]
           \<and> train_x self' = map ((!) (train_x self)) idx
           \<and> train_y self' = map ((!) (train_y self)) idx
           \<and> scaler self' = scaler self \<and> shuffle self' = shuffle self"
proof (cases "shuffle self")
  case False
  then have "shuffle_train shuf dataset self r = Inr (self, r)"
    by (simp add: shuffle_train_def)
  moreover have "train_x self = map ((!) (train_x self)) [0..<length (train_y self)]"
    by (metis len map_nth)
  moreover have "train_y self = map ((!) (train_y self)) [0..<length (train_y self)]"
    by (simp add: map_nth)
  ultimately show ?thesis by blast
next
  case True
  let ?n = "length (train_x self)"
  obtain idx r1 where sh: "shuf [0..<?n] r = (idx, r1)" by (cases "shuf [0..<?n] r")
  with True env have ms: "mset idx = mset [0..<?n]" and glob: "dataset = This" by auto
  from ms have "set idx = set [0..<?n]" by (rule mset_eq_setD)
  then have bound: "\<forall>i \<in> set idx. i < ?n" by auto
  have "np_take (train_x self) idx = Inr (map ((!) (train_x self)) idx)"
    using bound by (simp add: np_take_def)
  moreover have "np_take (train_y self) idx = Inr (map ((!) (train_y self)) idx)"
    using bound len by (simp add: np_take_def)
  ultimately have "shuffle_train shuf dataset self r
      = Inr (self\<lparr>train_x := map ((!) (train_x self)) idx,
                   train_y := map ((!) (train_y self)) idx\<rparr>, r1)"
    using True glob sh by (simp add: shuffle_train_def)
  with ms len show ?thesis by (intro exI [of _ idx] exI) auto
qed

lemma batches_cover:
  assumes bs: "0 < batch_size"
    and len: "length (train_x self) = length (train_y self)"
    and env: "shuffle self \<longrightarrow> dataset = This
                \<and> mset (fst (shuf [0..<length (train_x self)] r))
                    = mset [0..<length (train_x self)]"
    and sc: "\<forall>x. x \<noteq> [] \<and> set x \<subseteq> set (train_x self) \<longrightarrow> (\<exists>s. scaler self x = Inr s)"
  shows "\<exists>yielded self' r'.
           batches shuf dataset self batch_size r = Inr (yielded, self', r')
         \<and> length yielded = (length (train_y self) + nat batch_size - 1) div nat batch_size
         \<and> concat (map snd yielded) = train_y self'
         \<and> (\<forall>k < length yielded. length (snd (yielded ! k))
               = min (nat batch_size) (length (train_y self) - k * nat batch_size)
              \<and> 0 < length (snd (yielded ! k)))
         \<and> mset (zip (train_x self') (train_y self')) = mset (zip (train_x self) (train_y self))
         \<and> length (train_x self') = length (train_y self)
         \<and> length (train_y self') = length (train_y self)
         \<and> scaler self' = scaler self \<and> shuffle self' = shuffle self"
proof -
  let ?n = "length (train_y self)" and ?b = "nat batch_size"
  have b: "0 < ?b" using bs by simp
  from len env have "\<exists>self' r' idx. shuffle_train shuf dataset self r = Inr (self', r')
           \<and> mset idx = mset [0..<length (train_y self)]
           \<and> train_x self' = map ((!) (train_x self)) idx
           \<and> train_y self' = map ((!) (train_y self)) idx
           \<and> scaler self' = scaler self \<and> shuffle self' = shuffle self"
    by (rule shuffle_train_consistent)
  then obtain s1 r1 idx where
    sh: "shuffle_train shuf dataset self r = Inr (s1, r1)"
    and ms: "mset idx = mset [0..<?n]"
    and tx: "train_x s1 = map ((!) (train_x self)) idx"
    and ty: "train_y s1 = map ((!) (train_y self)) idx"
    and sc1: "scaler s1 = scaler self" and sf1: "shuffle s1 = shuffle self"
    by blast
  from ms have "size (mset idx) = size (mset [0..<?n])" by simp
  then have lidx: "length idx = ?n" by simp
  have lx: "length (train_x s1) = ?n" and ly: "length (train_y s1) = ?n"
    using tx ty lidx by simp_all
  from ms have sidx: "set idx = {0..<?n}" using mset_eq_setD by fastforce
  have sub: "set (train_x s1) \<subseteq> set (train_x self)"
    using tx sidx len by auto
  let ?starts = "py_range 0 ?n ?b"
  have "\<forall>ii \<in> set ?starts.
          \<exists>s. scaler s1 (slice (train_x s1) (int ii) (int ii + batch_size)) = Inr s"
  proof
    fix ii assume "ii \<in> set ?starts"
    then have ii: "ii < ?n" by (rule py_range_bound)
    have sl: "slice (train_x s1) (int ii) (int ii + batch_size)
              = take ?b (drop ii (train_x s1))" using bs by (rule slice_pos)
    have "take ?b (drop ii (train_x s1)) \<noteq> []" using ii lx b by simp
    moreover have "set (take ?b (drop ii (train_x s1))) \<subseteq> set (train_x self)"
      using sub by (meson in_set_dropD in_set_takeD subset_iff)
    ultimately show "\<exists>s. scaler s1 (slice (train_x s1) (int ii) (int ii + batch_size)) = Inr s"
      using sc sc1 sl by simp
  qed
  from yield_batches_total [OF this] obtain yl where
    yb: "yield_batches (scaler s1) (train_x s1) (train_y s1) batch_size ?starts = Inr yl"
    by blast
  have res: "batches shuf dataset self batch_size r = Inr (yl, s1, r1)"
    using sh yb bs ly by (simp add: batches_def Let_def)
  have lab: "map snd yl = map (\<lambda>ii. take ?b (drop ii (train_y s1))) ?starts"
    using yield_batches_labels [OF yb] bs by (simp add: slice_pos)
  from lab have "length (map snd yl) = length ?starts" by simp
  then have cnt: "length yl = (?n + ?b - 1) div ?b"
    using py_range_length [OF b, of 0 ?n] by simp
  have cat: "concat (map snd yl) = train_y s1"
    using concat_chunks [OF b, of "train_y s1" 0] lab ly by simp
  have sizes: "\<forall>k < length yl. length (snd (yl ! k)) = min ?b (?n - k * ?b)
                 \<and> 0 < length (snd (yl ! k))"
  proof (intro allI impI)
    fix k assume k: "k < length yl"
    then have ks: "k < length ?starts" using lab by (metis length_map)
    have "snd (yl ! k) = map snd yl ! k" using k by simp
    also have "\<dots> = take ?b (drop (?starts ! k) (train_y s1))" using lab ks by simp
    also have "?starts ! k = k * ?b" using py_range_nth [OF ks] by simp
    finally have e: "snd (yl ! k) = take ?b (drop (k * ?b) (train_y s1))" .
    have "?starts ! k \<in> set ?starts" using ks by (rule nth_mem)
    then have "?starts ! k < ?n" by (rule py_range_bound)
    then have "k * ?b < ?n" using py_range_nth [OF ks] by simp
    with e ly b show "length (snd (yl ! k)) = min ?b (?n - k * ?b) \<and> 0 < length (snd (yl ! k))"
      by (simp add: min.commute)
  qed
  have "zip (train_x s1) (train_y s1)
        = map (\<lambda>i. (train_x self ! i, train_y self ! i)) idx"
    using tx ty by (simp add: zip_map_map zip_same_conv_map)
  moreover have "zip (train_x self) (train_y self)
        = map (\<lambda>i. (train_x self ! i, train_y self ! i)) [0..<?n]"
    using len by (intro nth_equalityI) auto
  ultimately have pairs: "mset (zip (train_x s1) (train_y s1))
        = mset (zip (train_x self) (train_y self))"
    using ms by (metis mset_map)
  from res cnt cat sizes pairs lx ly sc1 sf1 show ?thesis by blast
qed

text \<open>With 128 training samples and batch size 64 there are two batches of 64.\<close>

lemma batches_128_by_64:
  assumes x: "length (train_x self) = 128" and y: "length (train_y self) = 128"
    and env: "shuffle self \<longrightarrow> dataset = This \<and> (\<forall>idx r. mset (fst (shuf idx r)) = mset idx)"
    and sc: "\<forall>x. x \<noteq> [] \<and> set x \<subseteq> set (train_x self) \<longrightarrow> (\<exists>s. scaler self x = Inr s)"
  shows "\<exists>yielded self' r'. batches shuf dataset self 64 r = Inr (yielded, self', r')
           \<and> length yielded = 2
           \<and> length (snd (yielded ! 0)) = 64 \<and> length (snd (yielded ! 1)) = 64"
proof -
  have bs: "0 < (64::int)" by simp
  have len: "length (train_x self) = length (train_y self)" using x y by simp
  have env': "shuffle self \<longrightarrow> dataset = This
      \<and> mset (fst (shuf [0..<length (train_x self)] r)) = mset [0..<length (train_x self)]"
    using env by blast
  from batches_cover [where shuf = shuf and r = r, OF bs len env' sc]
  obtain yl s1 r1 where b: "batches shuf dataset self 64 r = Inr (yl, s1, r1)"
    and c: "length yl = (length (train_y self) + nat 64 - 1) div nat 64"
    and z: "\<forall>k < length yl. length (snd (yl ! k))
               = min (nat 64) (length (train_y self) - k * nat 64)
              \<and> 0 < length (snd (yl ! k))"
    by blast
  from c y have c2: "length yl = 2" by simp
  with z y have "length (snd (yl ! 0)) = 64" and "length (snd (yl ! 1)) = 64" by simp_all
  with b c2 show ?thesis by blast
qed

text \<open>
  Claim C4 holds when shuffling is off, and when it is on with the module-level name
  \<open>dataset\<close> bound to the object itself (lemma \<open>batches_cover\<close>). It fails through the
  shuffle branch, which takes the length of the index array from \<open>dataset.train_x\<close>
  instead of \<open>self.train_x\<close>: with four training samples, batch size 2 and \<open>dataset\<close>
  bound to a set of two samples, one batch of two samples is yielded, not two batches
  covering the four samples.
\<close>

theorem batches_foreign_global:
  "batches reversing (Other (Dataset_init demo_small demo_test (1/2) False None))
     (Dataset_init demo_train demo_test (1/2) True None) 2 ()
   = Inr ([([[Fin (-3/5)], [Fin (-1)]], [2, 1])],
          (Dataset_init demo_train demo_test (1/2) True None)
            \<lparr>train_x := [[51], [0]], train_y := [2, 1]\<rparr>, ())
   \<and> (length (train_y (Dataset_init demo_train demo_test (1/2) True None)) + 2 - 1) div 2 = 2"
  by (simp add: batches_def shuffle_train_def Dataset_init_def demo_train_def demo_small_def
        reversing_def np_take_def Let_def py_range.simps slice_def slice_bound_def
        scale_def np_divide_def)

section \<open>Properties of the loss module\<close>

lemma softplus: "ln (1 + exp (x::real)) = max x 0 + ln (1 + exp (- \<bar>x\<bar>))"
proof (cases "0 \<le> x")
  case True
  have "exp x * exp (- x) = 1" by (rule exp_minus_inverse)
  then have "1 + exp x = exp x * (1 + exp (- x))"
    by (simp add: algebra_simps)
  moreover have "ln (exp x * (1 + exp (- x))) = ln (exp x) + ln (1 + exp (- x))"
    by (rule ln_mult_pos) (simp_all add: add_pos_pos)
  ultimately have "ln (1 + exp x) = ln (exp x) + ln (1 + exp (- x))"
    by simp
  with True show ?thesis by simp
next
  case False
  then show ?thesis by simp
qed

lemma logit_form_one: "logit_form x 1 = binary_cross_entropy 1 (sigmoid x)"
proof -
  have "binary_cross_entropy 1 (sigmoid x) = ln (1 + exp (- x))"
    by (simp add: binary_cross_entropy_def sigmoid_def ln_div add_pos_pos)
  also have "\<dots> = max (- x) 0 + ln (1 + exp (- \<bar>x\<bar>))"
    using softplus [of "- x"] by simp
  also have "max (- x) 0 = max x 0 - x" by simp
  finally show ?thesis by (simp add: logit_form_def)
qed

lemma logit_form_zero: "logit_form x 0 = binary_cross_entropy 0 (sigmoid x)"
proof -
  have pos: "0 < 1 + exp (- x)" by (simp add: add_pos_pos)
  have "1 - sigmoid x = exp (- x) / (1 + exp (- x))"
    using pos by (simp add: sigmoid_def field_simps)
  also have "\<dots> = 1 / (1 + exp x)"
    by (simp add: exp_minus field_simps add_pos_pos)
  finally have "binary_cross_entropy 0 (sigmoid x) = ln (1 + exp x)"
    by (simp add: binary_cross_entropy_def ln_div add_pos_pos)
  then show ?thesis using softplus [of x] by (simp add: logit_form_def)
qed

lemma logit_form_nonneg: "z = 0 \<or> z = 1 \<Longrightarrow> 0 \<le> logit_form x z"
proof -
  assume z: "z = 0 \<or> z = 1"
  have "0 \<le> ln (1 + exp (- \<bar>x\<bar>))" by (intro ln_ge_zero) simp
  moreover have "0 \<le> max x 0 - x * z" using z by auto
  ultimately show ?thesis by (simp add: logit_form_def)
qed

lemma map2_const:
  "length xs = length ps \<Longrightarrow> map2 f xs (map (\<lambda>_. c) ps) = map (\<lambda>x. f x c) xs"
  by (induction xs ps rule: list_induct2) auto

lemma sce_ones:
  "length logits = length probs \<Longrightarrow>
   sigmoid_cross_entropy_with_logits logits (ones_like probs)
     = Inr (map (\<lambda>x. logit_form x 1) logits)"
  by (simp add: sigmoid_cross_entropy_with_logits_def ones_like_def map2_const)

lemma sce_zeros:
  "length logits = length probs \<Longrightarrow>
   sigmoid_cross_entropy_with_logits logits (zeros_like probs)
     = Inr (map (\<lambda>x. logit_form x 0) logits)"
  by (simp add: sigmoid_cross_entropy_with_logits_def zeros_like_def map2_const)

lemma reduce_mean_nonempty: "t \<noteq> [] \<Longrightarrow> reduce_mean t = Fin (mean t)"
  by (simp add: reduce_mean_def np_divide_def mean_def)

lemma model_loss_value:
  assumes real: "discriminator input_real alpha = (p_real, l_real)"
    and fake: "discriminator (generator input_z output_dim alpha) alpha = (p_fake, l_fake)"
    and shape: "length p_real = length l_real" "length p_fake = length l_fake"
    and ne: "l_real \<noteq> []" "l_fake \<noteq> []"
  shows "model_loss generator discriminator input_real input_z output_dim alpha
         = Inr (Fin (mean (map (\<lambda>x. logit_form x 1) l_real)
                      + mean (map (\<lambda>x. logit_form x 0) l_fake)),
                Fin (mean (map (\<lambda>x. logit_form x 1) l_fake)))"
  using assms
  by (simp add: model_loss_def Let_def sce_ones sce_zeros reduce_mean_nonempty)

lemma mean_nonneg: "\<forall>v \<in> set t. 0 \<le> v \<Longrightarrow> 0 \<le> mean t"
  by (simp add: mean_def sum_list_nonneg)

text \<open>
  Claim C1: when the discriminator returns as many probabilities as logits on each of the
  two batches and the batches are not empty, \<open>model_loss\<close> returns the pair whose first
  component is the mean binary cross-entropy of the sigmoid of the real logits against the
  target 1 plus that of the fake logits against the target 0, and whose second component
  is the mean binary cross-entropy of the sigmoid of the fake logits against the target 1;
  each term is the value of \<open>sigmoid_cross_entropy_with_logits\<close> on the logits, and the
  probabilities enter through their shape only.
\<close>

theorem model_loss_cross_entropy:
  assumes real: "discriminator input_real alpha = (p_real, l_real)"
    and fake: "discriminator (generator input_z output_dim alpha) alpha = (p_fake, l_fake)"
    and shape: "length p_real = length l_real" "length p_fake = length l_fake"
    and ne: "l_real \<noteq> []" "l_fake \<noteq> []"
  shows "model_loss generator discriminator input_real input_z output_dim alpha
         = Inr (Fin (mean (map (\<lambda>x. binary_cross_entropy 1 (sigmoid x)) l_real)
                      + mean (map (\<lambda>x. binary_cross_entropy 0 (sigmoid x)) l_fake)),
                Fin (mean (map (\<lambda>x. binary_cross_entropy 1 (sigmoid x)) l_fake)))
       \<and> (\<exists>ce_real ce_fake ce_gen.
             sigmoid_cross_entropy_with_logits l_real (ones_like p_real) = Inr ce_real
           \<and> sigmoid_cross_entropy_with_logits l_fake (zeros_like p_fake) = Inr ce_fake
           \<and> sigmoid_cross_entropy_with_logits l_fake (ones_like p_fake) = Inr ce_gen
           \<and> model_loss generator discriminator input_real input_z output_dim alpha
               = Inr (np_add (reduce_mean ce_real) (reduce_mean ce_fake), reduce_mean ce_gen))"
proof -
  have v: "model_loss generator discriminator input_real input_z output_dim alpha
         = Inr (Fin (mean (map (\<lambda>x. logit_form x 1) l_real)
                      + mean (map (\<lambda>x. logit_form x 0) l_fake)),
                Fin (mean (map (\<lambda>x. logit_form x 1) l_fake)))"
    using assms by (rule model_loss_value)
  have a: "model_loss generator discriminator input_real input_z output_dim alpha
         = Inr (Fin (mean (map (\<lambda>x. binary_cross_entropy 1 (sigmoid x)) l_real)
                      + mean (map (\<lambda>x. binary_cross_entropy 0 (sigmoid x)) l_fake)),
                Fin (mean (map (\<lambda>x. binary_cross_entropy 1 (sigmoid x)) l_fake)))"
    using v by (simp only: logit_form_one logit_form_zero)
  have r: "sigmoid_cross_entropy_with_logits l_real (ones_like p_real)
            = Inr (map (\<lambda>x. logit_form x 1) l_real)"
    using shape(1) by (simp add: sce_ones)
  have f: "sigmoid_cross_entropy_with_logits l_fake (zeros_like p_fake)
            = Inr (map (\<lambda>x. logit_form x 0) l_fake)"
    using shape(2) by (simp add: sce_zeros)
  have g: "sigmoid_cross_entropy_with_logits l_fake (ones_like p_fake)
            = Inr (map (\<lambda>x. logit_form x 1) l_fake)"
    using shape(2) by (simp add: sce_ones)
  have "model_loss generator discriminator input_real input_z output_dim alpha
        = Inr (np_add (reduce_mean (map (\<lambda>x. logit_form x 1) l_real))
                      (reduce_mean (map (\<lambda>x. logit_form x 0) l_fake)),
               reduce_mean (map (\<lambda>x. logit_form x 1) l_fake))"
    using v ne by (simp add: reduce_mean_nonempty)
  with r f g a show ?thesis by blast
qed

theorem model_loss_cross_entropy_witness:
  "model_loss demo_generator demo_discriminator [0, 2] 1 3 (1/5)
   = Inr (Fin (mean (map (\<lambda>x. binary_cross_entropy 1 (sigmoid x)) [0, 2])
                + mean (map (\<lambda>x. binary_cross_entropy 0 (sigmoid x)) [1])),
          Fin (mean (map (\<lambda>x. binary_cross_entropy 1 (sigmoid x)) [1])))"
proof -
  have 1: "demo_discriminator [0, 2] (1/5) = (map sigmoid [0, 2], [0, 2])"
    by (simp add: demo_discriminator_def)
  have 2: "demo_discriminator (demo_generator 1 3 (1/5)) (1/5) = (map sigmoid [1], [1])"
    by (simp add: demo_discriminator_def demo_generator_def)
  show ?thesis
    using model_loss_cross_entropy
            [where discriminator = demo_discriminator and generator = demo_generator, OF 1 2]
    by simp
qed

text \<open>
  Claim C9: under the same conditions both losses returned by \<open>model_loss\<close> are finite
  and non-negative.
\<close>

theorem model_loss_nonneg:
  assumes real: "discriminator input_real alpha = (p_real, l_real)"
    and fake: "discriminator (generator input_z output_dim alpha) alpha = (p_fake, l_fake)"
    and shape: "length p_real = length l_real" "length p_fake = length l_fake"
    and ne: "l_real \<noteq> []" "l_fake \<noteq> []"
  shows "\<exists>d g. model_loss generator discriminator input_real input_z output_dim alpha
                 = Inr (Fin d, Fin g) \<and> 0 \<le> d \<and> 0 \<le> g"
proof -
  have v: "model_loss generator discriminator input_real input_z output_dim alpha
         = Inr (Fin (mean (map (\<lambda>x. logit_form x 1) l_real)
                      + mean (map (\<lambda>x. logit_form x 0) l_fake)),
                Fin (mean (map (\<lambda>x. logit_form x 1) l_fake)))"
    using assms by (rule model_loss_value)
  have "0 \<le> mean (map (\<lambda>x. logit_form x 1) l_real)"
    by (intro mean_nonneg) (auto intro: logit_form_nonneg)
  moreover have "0 \<le> mean (map (\<lambda>x. logit_form x 0) l_fake)"
    by (intro mean_nonneg) (auto intro: logit_form_nonneg)
  moreover have "0 \<le> mean (map (\<lambda>x. logit_form x 1) l_fake)"
    by (intro mean_nonneg) (auto intro: logit_form_nonneg)
  ultimately show ?thesis using v by simp
qed

theorem model_loss_nonneg_witness:
  "\<exists>d g. model_loss demo_generator demo_discriminator [0, 2] 1 3 (1/5)
            = Inr (Fin d, Fin g) \<and> 0 \<le> d \<and> 0 \<le> g"
proof -
  have 1: "demo_discriminator [0, 2] (1/5) = (map sigmoid [0, 2], [0, 2])"
    by (simp add: demo_discriminator_def)
  have 2: "demo_discriminator (demo_generator 1 3 (1/5)) (1/5) = (map sigmoid [1], [1])"
    by (simp add: demo_discriminator_def demo_generator_def)
  show ?thesis
    using model_loss_nonneg
            [where discriminator = demo_discriminator and generator = demo_generator, OF 1 2]
    by simp
qed

section \<open>Properties of the optimizer setup\<close>

text \<open>
  Claim C6: running the discriminator update returned by \<open>model_opt\<close> leaves every
  trainable variable whose name does not start with \<open>discriminator\<close> unchanged, and
  running the generator update leaves every trainable variable whose name does not start
  with \<open>generator\<close> unchanged.
\<close>

theorem model_opt_frame:
  "(\<not> startswith name ''discriminator'' \<longrightarrow>
      trainable (fst (model_opt opt update_ops t_vars dl gl learning_rate beta1) feed s) name
        = trainable s name)
   \<and> (\<not> startswith name ''generator'' \<longrightarrow>
      trainable (snd (model_opt opt update_ops t_vars dl gl learning_rate beta1) feed s) name
        = trainable s name)"
  by (simp add: model_opt_def minimize_def Let_def)

theorem model_opt_frame_witness:
  "trainable (fst (model_opt demo_adam (\<lambda>f s. ()) [''discriminator/w'', ''generator/w'']
                     () () (1/1000) (9/10)) () demo_vars) ''generator/w'' = 0
   \<and> trainable (fst (model_opt demo_adam (\<lambda>f s. ()) [''discriminator/w'', ''generator/w'']
                     () () (1/1000) (9/10)) () demo_vars) ''discriminator/w'' = 1
   \<and> trainable (snd (model_opt demo_adam (\<lambda>f s. ()) [''discriminator/w'', ''generator/w'']
                     () () (1/1000) (9/10)) () demo_vars) ''discriminator/w'' = 0
   \<and> trainable (snd (model_opt demo_adam (\<lambda>f s. ()) [''discriminator/w'', ''generator/w'']
                     () () (1/1000) (9/10)) () demo_vars) ''generator/w'' = 1"
proof -
  have g: "\<not> startswith ''generator/w'' ''discriminator''"
    and d: "\<not> startswith ''discriminator/w'' ''generator''"
    by (simp_all add: startswith_def)
  have "trainable (fst (model_opt demo_adam (\<lambda>f s. ()) [''discriminator/w'', ''generator/w'']
                     () () (1/1000) (9/10)) () demo_vars) ''generator/w''
        = trainable demo_vars ''generator/w''"
    using model_opt_frame [of "''generator/w''" demo_adam "\<lambda>f s. ()"
            "[''discriminator/w'', ''generator/w'']" "()" "()" "1/1000" "9/10" "()" demo_vars] g
    by blast
  then show ?thesis
    by (simp add: model_opt_def minimize_def Let_def startswith_def demo_adam_def demo_vars_def)
qed

section \<open>Properties of the training loop\<close>

lemma logged_steps_append: "logged_steps (a @ b) = logged_steps a @ logged_steps b"
  by (induction a rule: logged_steps.induct) simp_all


lemma replay_append:
  "replay net gen rnd sample_z batch_size z_size (a @ b) c =
     (case replay net gen rnd sample_z batch_size z_size a c of
        None \<Rightarrow> None
      | Some c' \<Rightarrow> replay net gen rnd sample_z batch_size z_size b c')"
  by (induction a arbitrary: c) (simp_all split: option.splits)


lemma logged_step_events:
  "logged_steps (step_events net gen rnd sample_z batch_size z_size print_every show_every
      k r x s)
   = (if k mod print_every = 0 then [k] else [])"
  by (simp add: step_events_def Let_def)


lemma train_step_result:
  assumes step: "train_step net gen rnd io sample_z batch_size z_size print_every show_every
                   xy st = Inr st'"
  shows "print_every \<noteq> 0 \<and> show_every \<noteq> 0
     \<and> steps st' = steps st + 1
     \<and> rng st' = snd (np_uniform rnd (batch_size, z_size) (rng st))
     \<and> sess st' = g_opt net (fst (np_uniform rnd (batch_size, z_size) (rng st))) (fst xy)
                    (d_opt net (fst xy) (fst (np_uniform rnd (batch_size, z_size) (rng st)))
                       (sess st))
     \<and> losses st' = (if (steps st + 1) mod print_every = 0
                     then losses st @ [(d_loss net (fst (np_uniform rnd (batch_size, z_size) (rng st)))
                                          (fst xy) (sess st'),
                                        g_loss net (fst (np_uniform rnd (batch_size, z_size) (rng st)))
                                          (sess st'))]
                     else losses st)
     \<and> samples st' = (if (steps st + 1) mod show_every = 0
                      then samples st @ [gen sample_z (sess st')] else samples st)
     \<and> events st' = events st @ step_events net gen rnd sample_z batch_size z_size
                        print_every show_every (steps st + 1) (rng st) (fst xy) (sess st)
     \<and> ((steps st + 1) mod show_every = 0 \<longrightarrow> view_samples io (samples st') = None)"
proof -
  obtain z r' where u: "np_uniform rnd (batch_size, z_size) (rng st) = (z, r')"
    by (cases "np_uniform rnd (batch_size, z_size) (rng st)")
  have pe: "print_every \<noteq> 0" and se: "show_every \<noteq> 0"
    using step u by (auto simp: train_step_def Let_def split: if_splits)
  show ?thesis
  proof (cases "(steps st + 1) mod show_every = 0")
    case True
    with step u pe se have v: "view_samples io (samples st @ [gen sample_z
          (g_opt net z (fst xy) (d_opt net (fst xy) z (sess st)))]) = None"
      by (simp add: train_step_def Let_def split: option.splits)
    with step u pe se True show ?thesis
      by (auto simp: train_step_def Let_def step_events_def)
  next
    case False
    with step u pe se show ?thesis
      by (auto simp: train_step_def Let_def step_events_def)
  qed
qed

lemma train_step_total:
  assumes pe: "print_every \<noteq> 0" and se: "show_every \<noteq> 0"
    and view: "(steps st + 1) mod show_every = 0 \<longrightarrow>
       view_samples io (samples st @ [gen sample_z
          (g_opt net (fst (np_uniform rnd (batch_size, z_size) (rng st))) (fst xy)
             (d_opt net (fst xy) (fst (np_uniform rnd (batch_size, z_size) (rng st)))
                (sess st)))]) = None"
  shows "\<exists>st'. train_step net gen rnd io sample_z batch_size z_size print_every show_every
                 xy st = Inr st'"
proof -
  obtain z r' where u: "np_uniform rnd (batch_size, z_size) (rng st) = (z, r')"
    by (cases "np_uniform rnd (batch_size, z_size) (rng st)")
  show ?thesis
  proof (cases "(steps st + 1) mod show_every = 0")
    case True
    with view u pe se show ?thesis by (simp add: train_step_def Let_def)
  next
    case False
    with u pe se show ?thesis by (simp add: train_step_def Let_def)
  qed
qed

lemma run_batches_invariant:
  assumes step: "\<And>xy st st'. P st \<Longrightarrow> body xy st = Inr st' \<Longrightarrow> P st'"
    and init: "P st" and run: "run_batches body bl st = Inr st'"
  shows "P st'"
  using init run
proof (induction bl arbitrary: st)
  case Nil
  then show ?case by simp
next
  case (Cons xy rest)
  from Cons.prems(2) obtain st1 where b: "body xy st = Inr st1"
    and r: "run_batches body rest st1 = Inr st'"
    by (auto split: sum.splits)
  from step [OF Cons.prems(1) b] have "P st1" .
  from Cons.IH [OF this r] show ?case .
qed


lemma run_epochs_invariant:
  fixes ds :: "('x, 'y, 'b) Dataset"
  assumes step: "\<And>(xy :: 'b \<times> 'y list) st st'. P st \<Longrightarrow>
        train_step net gen rnd io sample_z batch_size z_size print_every show_every xy st
          = Inr st'
        \<Longrightarrow> P st'"
    and reseed: "\<And>st r. P st \<Longrightarrow> P (st\<lparr>rng := r, events := events st @ [NextEpoch r]\<rparr>)"
    and init: "P st"
    and run: "run_epochs net gen rnd io sample_z glob batch_size z_size print_every
                show_every e ds st = Inr (ds', st')"
  shows "P st'"
  using init run
proof (induction e arbitrary: ds st)
  case 0
  then show ?case by simp
next
  case (Suc e)
  from Suc.prems(2) obtain yl ds1 r1 st1 where
    b: "batches (np_shuffle rnd) glob ds batch_size (rng st) = Inr (yl, ds1, r1)"
    and rb: "run_batches (train_step net gen rnd io sample_z batch_size z_size print_every
               show_every) yl (st\<lparr>rng := r1, events := events st @ [NextEpoch r1]\<rparr>)
             = Inr st1"
    and re: "run_epochs net gen rnd io sample_z glob batch_size z_size print_every
               show_every e ds1 st1 = Inr (ds', st')"
    by (auto split: sum.splits prod.splits)
  have "P st1"
  proof (rule run_batches_invariant [where P = P])
    show "P (st\<lparr>rng := r1, events := events st @ [NextEpoch r1]\<rparr>)"
      using Suc.prems(1) by (rule reseed)
    show "run_batches (train_step net gen rnd io sample_z batch_size z_size print_every
               show_every) yl (st\<lparr>rng := r1, events := events st @ [NextEpoch r1]\<rparr>)
          = Inr st1" by (rule rb)
  next
    fix xy :: "'b \<times> 'y list" and a b
    assume "P a"
      and "train_step net gen rnd io sample_z batch_size z_size print_every show_every xy a
           = Inr b"
    then show "P b" by (rule step)
  qed
  from Suc.IH [OF this re] show ?case .
qed

lemma div_succ:
  assumes p: "0 < (p::int)"
  shows "(s + 1) div p = s div p + (if (s + 1) mod p = 0 then 1 else 0)"
proof (cases "(s + 1) mod p = 0")
  case True
  define q where "q = (s + 1) div p"
  have "s + 1 = p * q" using True unfolding q_def by (simp add: mod_eq_0_iff_dvd)
  then have "s = p * (q - 1) + (p - 1)" by (simp add: algebra_simps)
  then have "s div p = q - 1" by (rule int_div_pos_eq) (use p in simp_all)
  then show ?thesis using True by (simp add: q_def)
next
  case False
  define q where "q = s div p"
  define r where "r = s mod p"
  have s: "s = p * q + r" by (simp add: q_def r_def)
  have r: "0 \<le> r" "r < p" using p by (simp_all add: r_def)
  have "r + 1 \<noteq> p"
  proof
    assume "r + 1 = p"
    then have "s + 1 = p * (q + 1)" using s by (simp add: algebra_simps)
    then have "(s + 1) mod p = 0" by simp
    with False show False by simp
  qed
  with r have r1: "0 \<le> r + 1" "r + 1 < p" by simp_all
  have "s + 1 = p * q + (r + 1)" using s by simp
  then have "(s + 1) div p = q" using r1 by (rule int_div_pos_eq)
  then show ?thesis using False by (simp add: q_def)
qed



lemma replay_step:
  assumes "between_passes (r_phase c)"
  shows "replay net gen rnd sample_z batch_size z_size
           (step_events net gen rnd sample_z batch_size z_size print_every show_every
              (r_steps c + 1) (r_rng c) x (r_sess c)) c
         = Some (c\<lparr> r_steps := r_steps c + 1,
                    r_sess := g_opt net (fst (np_uniform rnd (batch_size, z_size) (r_rng c))) x
                                (d_opt net x (fst (np_uniform rnd (batch_size, z_size) (r_rng c)))
                                   (r_sess c)),
                    r_rng := snd (np_uniform rnd (batch_size, z_size) (r_rng c)),
                    r_phase := GenDone x (fst (np_uniform rnd (batch_size, z_size) (r_rng c))),
                    r_losses :=
                      (if (r_steps c + 1) mod print_every = 0
                       then r_losses c @
                         [(d_loss net (fst (np_uniform rnd (batch_size, z_size) (r_rng c))) x
                             (g_opt net (fst (np_uniform rnd (batch_size, z_size) (r_rng c))) x
                                (d_opt net x (fst (np_uniform rnd (batch_size, z_size) (r_rng c)))
                                   (r_sess c))),
                           g_loss net (fst (np_uniform rnd (batch_size, z_size) (r_rng c)))
                             (g_opt net (fst (np_uniform rnd (batch_size, z_size) (r_rng c))) x
                                (d_opt net x (fst (np_uniform rnd (batch_size, z_size) (r_rng c)))
                                   (r_sess c))))]
                       else r_losses c),
                    r_samples :=
                      (if (r_steps c + 1) mod show_every = 0
                       then r_samples c @ [gen sample_z
                             (g_opt net (fst (np_uniform rnd (batch_size, z_size) (r_rng c))) x
                                (d_opt net x (fst (np_uniform rnd (batch_size, z_size) (r_rng c)))
                                   (r_sess c)))]
                       else r_samples c) \<rparr>)"
  using assms by (simp add: step_events_def replay_event_def Let_def)

lemma replayed_run_step:
  assumes inv: "replayed_run net gen rnd sample_z batch_size z_size c0 st"
    and step: "train_step net gen rnd io sample_z batch_size z_size print_every show_every
                 xy st = Inr st'"
  shows "replayed_run net gen rnd sample_z batch_size z_size c0 st'"
proof -
  from inv obtain c where
    r: "replay net gen rnd sample_z batch_size z_size (events st) c0 = Some c"
    and m: "replays_to c st"
    unfolding replayed_run_def by blast
  from m have bp: "between_passes (r_phase c)" and eqs: "r_steps c = steps st"
    "r_sess c = sess st" "r_rng c = rng st" "r_losses c = losses st"
    "r_samples c = samples st"
    unfolding replays_to_def by simp_all
  note res = train_step_result [OF step]
  from res have e: "events st' = events st @ step_events net gen rnd sample_z batch_size
      z_size print_every show_every (r_steps c + 1) (r_rng c) (fst xy) (r_sess c)"
    using eqs by simp
  have "replay net gen rnd sample_z batch_size z_size (events st') c0
        = replay net gen rnd sample_z batch_size z_size
            (step_events net gen rnd sample_z batch_size z_size print_every show_every
               (r_steps c + 1) (r_rng c) (fst xy) (r_sess c)) c"
    using r e by (simp add: replay_append)
  also note replay_step [OF bp]
  finally obtain c' where
    r': "replay net gen rnd sample_z batch_size z_size (events st') c0 = Some c'"
    and c': "c' = c\<lparr> r_steps := r_steps c + 1,
                    r_sess := g_opt net (fst (np_uniform rnd (batch_size, z_size) (r_rng c)))
                                (fst xy)
                                (d_opt net (fst xy)
                                   (fst (np_uniform rnd (batch_size, z_size) (r_rng c)))
                                   (r_sess c)),
                    r_rng := snd (np_uniform rnd (batch_size, z_size) (r_rng c)),
                    r_phase := GenDone (fst xy)
                                 (fst (np_uniform rnd (batch_size, z_size) (r_rng c))),
                    r_losses :=
                      (if (r_steps c + 1) mod print_every = 0
                       then r_losses c @
                         [(d_loss net (fst (np_uniform rnd (batch_size, z_size) (r_rng c)))
                             (fst xy)
                             (g_opt net (fst (np_uniform rnd (batch_size, z_size) (r_rng c)))
                                (fst xy)
                                (d_opt net (fst xy)
                                   (fst (np_uniform rnd (batch_size, z_size) (r_rng c)))
                                   (r_sess c))),
                           g_loss net (fst (np_uniform rnd (batch_size, z_size) (r_rng c)))
                             (g_opt net (fst (np_uniform rnd (batch_size, z_size) (r_rng c)))
                                (fst xy)
                                (d_opt net (fst xy)
                                   (fst (np_uniform rnd (batch_size, z_size) (r_rng c)))
                                   (r_sess c))))]
                       else r_losses c),
                    r_samples :=
                      (if (r_steps c + 1) mod show_every = 0
                       then r_samples c @ [gen sample_z
                             (g_opt net (fst (np_uniform rnd (batch_size, z_size) (r_rng c)))
                                (fst xy)
                                (d_opt net (fst xy)
                                   (fst (np_uniform rnd (batch_size, z_size) (r_rng c)))
                                   (r_sess c)))]
                       else r_samples c) \<rparr>"
    by simp
  have "replays_to c' st'"
    using res eqs unfolding replays_to_def c' by (simp add: between_passes_def)
  with r' show ?thesis unfolding replayed_run_def by blast
qed

lemma replayed_run_reseed:
  assumes inv: "replayed_run net gen rnd sample_z batch_size z_size c0 st"
  shows "replayed_run net gen rnd sample_z batch_size z_size c0
           (st\<lparr>rng := r, events := events st @ [NextEpoch r]\<rparr>)"
proof -
  from inv obtain c where
    rp: "replay net gen rnd sample_z batch_size z_size (events st) c0 = Some c"
    and m: "replays_to c st"
    unfolding replayed_run_def by blast
  from m have bp: "between_passes (r_phase c)" unfolding replays_to_def by simp
  have "replay net gen rnd sample_z batch_size z_size (events st @ [NextEpoch r]) c0
        = Some (c\<lparr>r_rng := r, r_phase := Idle\<rparr>)"
    using rp bp by (simp add: replay_append replay_event_def)
  moreover have "replays_to (c\<lparr>r_rng := r, r_phase := Idle\<rparr>)
                   (st\<lparr>rng := r, events := events st @ [NextEpoch r]\<rparr>)"
    using m unfolding replays_to_def by (simp add: between_passes_def)
  ultimately show ?thesis unfolding replayed_run_def by auto
qed

lemma logging_invariant_step:
  assumes pos: "0 < print_every"
    and inv: "logging_invariant print_every st"
    and step: "train_step net gen rnd io sample_z batch_size z_size print_every show_every
                 xy st = Inr st'"
  shows "logging_invariant print_every st'"
proof -
  let ?k = "steps st + 1"
  from train_step_result [OF step]
  have s: "steps st' = ?k"
    and l: "length (losses st') = (if ?k mod print_every = 0 then Suc (length (losses st))
                                   else length (losses st))"
    and e: "logged_steps (events st')
            = logged_steps (events st) @ (if ?k mod print_every = 0 then [?k] else [])"
    by (simp_all add: logged_steps_append logged_step_events)
  from inv have n: "0 \<le> steps st"
    and il: "int (length (losses st)) = steps st div print_every"
    and ie: "logged_steps (events st) = filter (\<lambda>k. k mod print_every = 0) [1..steps st]"
    unfolding logging_invariant_def by simp_all
  have "[1..?k] = [1..steps st] @ [?k]" using n by (simp add: upto_rec2)
  then have "filter (\<lambda>k. k mod print_every = 0) [1..?k]
      = filter (\<lambda>k. k mod print_every = 0) [1..steps st]
        @ (if ?k mod print_every = 0 then [?k] else [])"
    by simp
  with e ie s have 1: "logged_steps (events st')
      = filter (\<lambda>k. k mod print_every = 0) [1..steps st']" by simp
  have "int (length (losses st')) = steps st div print_every
          + (if ?k mod print_every = 0 then 1 else 0)"
    using l il by simp
  also have "\<dots> = ?k div print_every" using div_succ [OF pos, of "steps st"] by simp
  finally have 2: "int (length (losses st')) = steps st' div print_every" using s by simp
  from 1 2 n s show ?thesis unfolding logging_invariant_def by simp
qed

lemma run_batches_total:
  assumes pe: "print_every \<noteq> 0" and se: "show_every \<noteq> 0"
    and view: "\<forall>ss. view_samples io ss = None"
  shows "\<exists>st'. run_batches
                  (train_step net gen rnd io sample_z batch_size z_size print_every
                     show_every)
                  bl st = Inr st'
               \<and> steps st' = steps st + int (length bl)"
proof (induction bl arbitrary: st)
  case Nil
  then show ?case by simp
next
  case (Cons xy rest)
  have "(steps st + 1) mod show_every = 0 \<longrightarrow>
       view_samples io (samples st @ [gen sample_z
          (g_opt net (fst (np_uniform rnd (batch_size, z_size) (rng st))) (fst xy)
             (d_opt net (fst xy) (fst (np_uniform rnd (batch_size, z_size) (rng st)))
                (sess st)))]) = None"
    using view by simp
  with pe se have "\<exists>st'. train_step net gen rnd io sample_z batch_size z_size print_every
      show_every xy st = Inr st'"
    by (rule train_step_total)
  then obtain st1 where 1: "train_step net gen rnd io sample_z batch_size z_size print_every
      show_every xy st = Inr st1"
    by blast
  from train_step_result [OF 1] have s1: "steps st1 = steps st + 1" by simp
  from Cons.IH [of st1] obtain st' where
    2: "run_batches (train_step net gen rnd io sample_z batch_size z_size print_every
          show_every) rest st1 = Inr st'"
    and s2: "steps st' = steps st1 + int (length rest)"
    by blast
  from 1 2 s1 s2 show ?case by simp
qed

lemma same_training_step:
  assumes rel: "same_training a b"
    and pe: "pe' \<noteq> 0"
    and step: "train_step net gen rnd io sample_z batch_size z_size print_every show_every
                 xy a = Inr a'"
  shows "\<exists>b'. train_step net gen rnd io sample_z batch_size z_size pe' show_every xy b
                = Inr b'
              \<and> same_training a' b'"
proof -
  note ra = train_step_result [OF step]
  from ra have se: "show_every \<noteq> 0" by simp
  from rel have eq: "sess b = sess a" "rng b = rng a" "steps b = steps a"
    "samples b = samples a"
    unfolding same_training_def by simp_all
  have "(steps b + 1) mod show_every = 0 \<longrightarrow>
       view_samples io (samples b @ [gen sample_z
          (g_opt net (fst (np_uniform rnd (batch_size, z_size) (rng b))) (fst xy)
             (d_opt net (fst xy) (fst (np_uniform rnd (batch_size, z_size) (rng b)))
                (sess b)))]) = None"
    using ra eq by auto
  with pe se have "\<exists>b'. train_step net gen rnd io sample_z batch_size z_size pe' show_every
      xy b = Inr b'"
    by (rule train_step_total)
  then obtain b' where
    b: "train_step net gen rnd io sample_z batch_size z_size pe' show_every xy b = Inr b'"
    by blast
  note rb = train_step_result [OF b]
  have "same_training a' b'"
    using ra rb eq unfolding same_training_def by simp
  with b show ?thesis by blast
qed

lemma same_training_batches:
  assumes pe: "pe' \<noteq> 0"
  shows "same_training a b \<Longrightarrow>
     run_batches (train_step net gen rnd io sample_z batch_size z_size print_every
       show_every) bl a = Inr a' \<Longrightarrow>
     \<exists>b'. run_batches (train_step net gen rnd io sample_z batch_size z_size pe' show_every)
             bl b = Inr b' \<and> same_training a' b'"
proof (induction bl arbitrary: a b)
  case Nil
  then show ?case by simp
next
  case (Cons xy rest)
  from Cons.prems(2) obtain a1 where
    1: "train_step net gen rnd io sample_z batch_size z_size print_every show_every xy a
        = Inr a1"
    and 2: "run_batches (train_step net gen rnd io sample_z batch_size z_size print_every
              show_every) rest a1 = Inr a'"
    by (auto split: sum.splits)
  from same_training_step [OF Cons.prems(1) pe 1] obtain b1 where
    3: "train_step net gen rnd io sample_z batch_size z_size pe' show_every xy b = Inr b1"
    and 4: "same_training a1 b1" by blast
  from Cons.IH [OF 4 2] obtain b' where
    "run_batches (train_step net gen rnd io sample_z batch_size z_size pe' show_every)
       rest b1 = Inr b'" and "same_training a' b'" by blast
  with 3 show ?case by simp
qed

lemma same_training_epochs:
  fixes ds :: "('x, 'y, 'b) Dataset"
  assumes pe: "pe' \<noteq> 0"
  shows "same_training a b \<Longrightarrow>
     run_epochs net gen rnd io sample_z glob batch_size z_size print_every show_every e ds a
       = Inr (ds', a') \<Longrightarrow>
     \<exists>b'. run_epochs net gen rnd io sample_z glob batch_size z_size pe' show_every e ds b
             = Inr (ds', b') \<and> same_training a' b'"
proof (induction e arbitrary: ds a b)
  case 0
  then show ?case by simp
next
  case (Suc e)
  from Suc.prems(2) obtain yl ds1 r1 a1 where
    bt: "batches (np_shuffle rnd) glob ds batch_size (rng a) = Inr (yl, ds1, r1)"
    and rb: "run_batches (train_step net gen rnd io sample_z batch_size z_size print_every
               show_every) yl (a\<lparr>rng := r1, events := events a @ [NextEpoch r1]\<rparr>)
             = Inr a1"
    and re: "run_epochs net gen rnd io sample_z glob batch_size z_size print_every
               show_every e ds1 a1 = Inr (ds', a')"
    by (auto split: sum.splits prod.splits)
  have r: "rng b = rng a" using Suc.prems(1) by (simp add: same_training_def)
  have "same_training (a\<lparr>rng := r1, events := events a @ [NextEpoch r1]\<rparr>)
                      (b\<lparr>rng := r1, events := events b @ [NextEpoch r1]\<rparr>)"
    using Suc.prems(1) by (simp add: same_training_def)
  from same_training_batches [OF pe this rb] obtain b1 where
    rb': "run_batches (train_step net gen rnd io sample_z batch_size z_size pe' show_every)
            yl (b\<lparr>rng := r1, events := events b @ [NextEpoch r1]\<rparr>) = Inr b1"
    and s1: "same_training a1 b1" by blast
  from Suc.IH [OF s1 re] obtain b' where
    "run_epochs net gen rnd io sample_z glob batch_size z_size pe' show_every e ds1 b1
       = Inr (ds', b')" and "same_training a' b'" by blast
  with bt rb' r show ?case by simp
qed

lemma epoch_batches:
  fixes ds :: "('x, 'y, 'b) Dataset"
  assumes bs: "0 < batch_size"
    and len: "length (train_x ds) = length (train_y ds)"
    and env: "shuffle ds \<longrightarrow> glob = This \<and> (\<forall>idx r. mset (fst (shuf idx r)) = mset idx)"
    and sc: "\<forall>x. x \<noteq> [] \<and> set x \<subseteq> set (train_x ds) \<longrightarrow> (\<exists>s. scaler ds x = Inr s)"
  shows "\<exists>yl ds' r'. batches shuf glob ds batch_size r = Inr (yl, ds', r')
     \<and> length yl = (length (train_y ds) + nat batch_size - 1) div nat batch_size
     \<and> length (train_x ds') = length (train_y ds')
     \<and> length (train_y ds') = length (train_y ds)
     \<and> shuffle ds' = shuffle ds
     \<and> (\<forall>x. x \<noteq> [] \<and> set x \<subseteq> set (train_x ds') \<longrightarrow> (\<exists>s. scaler ds' x = Inr s))"
proof -
  have env': "shuffle ds \<longrightarrow> glob = This
                \<and> mset (fst (shuf [0..<length (train_x ds)] r)) = mset [0..<length (train_x ds)]"
    using env by blast
  from batches_cover [where shuf = shuf and r = r, OF bs len env' sc] obtain yl ds' r' where
    b: "batches shuf glob ds batch_size r = Inr (yl, ds', r')"
    and c: "length yl = (length (train_y ds) + nat batch_size - 1) div nat batch_size"
    and z: "mset (zip (train_x ds') (train_y ds')) = mset (zip (train_x ds) (train_y ds))"
    and lx: "length (train_x ds') = length (train_y ds)"
    and ly: "length (train_y ds') = length (train_y ds)"
    and s: "scaler ds' = scaler ds" and f: "shuffle ds' = shuffle ds"
    by blast
  from z have "set (zip (train_x ds') (train_y ds')) = set (zip (train_x ds) (train_y ds))"
    by (rule mset_eq_setD)
  then have "set (map fst (zip (train_x ds') (train_y ds')))
      = set (map fst (zip (train_x ds) (train_y ds)))" by simp
  then have "set (train_x ds') = set (train_x ds)"
    using lx ly len by (simp only: map_fst_zip)
  with sc s have "\<forall>x. x \<noteq> [] \<and> set x \<subseteq> set (train_x ds') \<longrightarrow> (\<exists>s. scaler ds' x = Inr s)"
    by simp
  with b c lx ly f show ?thesis by (intro exI [of _ yl] exI [of _ ds'] exI [of _ r']) simp
qed


lemma run_epochs_total:
  fixes ds :: "('x, 'y, 'b) Dataset"
  assumes pe: "print_every \<noteq> 0" and se: "show_every \<noteq> 0" and bs: "0 < batch_size"
    and view: "\<forall>ss. view_samples io ss = None"
  shows "length (train_x ds) = length (train_y ds) \<Longrightarrow> length (train_y ds) = n \<Longrightarrow>
     (shuffle ds \<longrightarrow> glob = This \<and> (\<forall>idx r. mset (fst (np_shuffle rnd idx r)) = mset idx)) \<Longrightarrow>
     (\<forall>x. x \<noteq> [] \<and> set x \<subseteq> set (train_x ds) \<longrightarrow> (\<exists>s. scaler ds x = Inr s)) \<Longrightarrow>
     \<exists>ds' st'. run_epochs net gen rnd io sample_z glob batch_size z_size print_every
                  show_every e ds st = Inr (ds', st')
        \<and> steps st' = steps st + int (e * ((n + nat batch_size - 1) div nat batch_size))"
proof (induction e arbitrary: ds st)
  case 0
  then show ?case by simp
next
  case (Suc e)
  let ?B = "(n + nat batch_size - 1) div nat batch_size"
  from epoch_batches [where shuf = "np_shuffle rnd" and r = "rng st",
      OF bs Suc.prems(1) Suc.prems(3) Suc.prems(4)]
  obtain yl ds1 r1 where
    b: "batches (np_shuffle rnd) glob ds batch_size (rng st) = Inr (yl, ds1, r1)"
    and c: "length yl = ?B"
    and l1: "length (train_x ds1) = length (train_y ds1)"
    and l2: "length (train_y ds1) = n"
    and f: "shuffle ds1 = shuffle ds"
    and sc1: "\<forall>x. x \<noteq> [] \<and> set x \<subseteq> set (train_x ds1) \<longrightarrow> (\<exists>s. scaler ds1 x = Inr s)"
    using Suc.prems(2) by auto
  from run_batches_total [OF pe se view, of net gen rnd sample_z batch_size z_size yl
      "st\<lparr>rng := r1, events := events st @ [NextEpoch r1]\<rparr>"]
  obtain st1 where
    rb: "run_batches (train_step net gen rnd io sample_z batch_size z_size print_every
           show_every) yl (st\<lparr>rng := r1, events := events st @ [NextEpoch r1]\<rparr>) = Inr st1"
    and s1: "steps st1 = steps st + int (length yl)"
    by auto
  have env1: "shuffle ds1 \<longrightarrow> glob = This
      \<and> (\<forall>idx r. mset (fst (np_shuffle rnd idx r)) = mset idx)"
    using Suc.prems(3) f by simp
  from Suc.IH [OF l1 l2 env1 sc1, of st1] obtain ds' st' where
    re: "run_epochs net gen rnd io sample_z glob batch_size z_size print_every show_every
           e ds1 st1 = Inr (ds', st')"
    and s2: "steps st' = steps st1 + int (e * ?B)"
    by blast
  have "steps st' = steps st + int (Suc e * ?B)" using s1 s2 c by (simp add: algebra_simps)
  with b rb re show ?case by simp
qed

lemma train_loop_replayed:
  fixes dataset :: "('x, 'y, 'b) Dataset"
    and st :: "('v, 'r, 'b, 'z, 'l, 'g) train_state"
  assumes run: "train_loop net gen rnd io glob z_size init r0 dataset epochs batch_size
                  print_every show_every = Inr (dataset', st)"
  shows "\<exists>c. replay net gen rnd (fst (np_uniform rnd (72, z_size) r0)) batch_size z_size
               (events st)
               \<lparr> r_steps = 0, r_sess = init, r_rng = snd (np_uniform rnd (72, z_size) r0),
                 r_phase = Idle, r_losses = [], r_samples = [] \<rparr> = Some c
           \<and> replays_to c st"
proof -
  obtain sample_z r1 where u: "np_uniform rnd (72, z_size) r0 = (sample_z, r1)"
    by (cases "np_uniform rnd (72, z_size) r0")
  let ?st0 = "\<lparr> sess = init, rng = r1, steps = 0, losses = [], samples = [],
                 events = [] \<rparr> :: ('v, 'r, 'b, 'z, 'l, 'g) train_state"
  let ?c0 = "\<lparr> r_steps = 0, r_sess = init, r_rng = r1, r_phase = Idle, r_losses = [],
                r_samples = [] \<rparr> :: ('v, 'r, 'b, 'z, 'l, 'g) replayed"
  from run u have re: "run_epochs net gen rnd io sample_z glob batch_size z_size print_every
      show_every (nat epochs) dataset ?st0 = Inr (dataset', st)"
    by (simp add: train_loop_def)
  have "replayed_run net gen rnd sample_z batch_size z_size ?c0 st"
  proof (rule run_epochs_invariant
      [where P = "replayed_run net gen rnd sample_z batch_size z_size ?c0", OF _ _ _ re])
    show "replayed_run net gen rnd sample_z batch_size z_size ?c0 ?st0"
      by (simp add: replayed_run_def replays_to_def between_passes_def)
  next
    fix a :: "('v, 'r, 'b, 'z, 'l, 'g) train_state" and r
    assume "replayed_run net gen rnd sample_z batch_size z_size ?c0 a"
    then show "replayed_run net gen rnd sample_z batch_size z_size ?c0
                 (a\<lparr>rng := r, events := events a @ [NextEpoch r]\<rparr>)"
      by (rule replayed_run_reseed)
  next
    fix xy :: "'b \<times> 'y list" and a b :: "('v, 'r, 'b, 'z, 'l, 'g) train_state"
    assume "replayed_run net gen rnd sample_z batch_size z_size ?c0 a"
      and "train_step net gen rnd io sample_z batch_size z_size print_every show_every xy a
           = Inr b"
    then show "replayed_run net gen rnd sample_z batch_size z_size ?c0 b"
      by (rule replayed_run_step)
  qed
  then show ?thesis using u unfolding replayed_run_def by simp
qed


text \<open>
  Claim C8: for a positive logging interval, a training set of as many images as labels, a
  positive batch size, a scaler that accepts the batches (with shuffling, if on, a
  permutation of the object's own index range) and plotting and file output that do not
  raise, training for \<open>E\<close> epochs of \<open>B\<close> batches each returns. The losses were
  recorded exactly at the steps from 1 to \<open>E * B\<close> that the interval divides, so the
  history has \<open>(E * B) div print_every\<close> entries; each entry is the pair of the
  discriminator loss and the generator loss on the batch and the noise of its step and on
  the variables the two updates of that step left, as the replay of the calls computes
  them; and the recording updates no variable: the session ends in the same variables
  under any other logging interval.
\<close>

theorem train_loss_history:
  fixes dataset :: "('x, 'y, 'b) Dataset"
    and net :: "('v, 'b, 'z, 'l) GAN" and gen :: "'z \<Rightarrow> 'v \<Rightarrow> 'g"
    and rnd :: "('r, 'z) np_random"
  assumes pe: "0 < print_every" and se: "show_every \<noteq> 0" and bs: "0 < batch_size"
    and len: "length (train_x dataset) = length (train_y dataset)"
    and env: "shuffle dataset \<longrightarrow>
                glob = This \<and> (\<forall>idx r. mset (fst (np_shuffle rnd idx r)) = mset idx)"
    and sc: "\<forall>x. x \<noteq> [] \<and> set x \<subseteq> set (train_x dataset)
                \<longrightarrow> (\<exists>s. scaler dataset x = Inr s)"
    and view: "\<forall>ss. view_samples io ss = None"
    and save: "\<forall>v. saver_save io v = None"
    and dump: "\<forall>ss. pickle_dump io ss = None"
    and B: "B = (length (train_y dataset) + nat batch_size - 1) div nat batch_size"
  shows "\<exists>dataset' st.
           train_loop net gen rnd io glob z_size init r0 dataset (int E) batch_size
             print_every show_every = Inr (dataset', st)
         \<and> train net gen rnd io glob z_size init r0 dataset (int E) batch_size
             print_every show_every = Inr (losses st, samples st)
         \<and> steps st = int (E * B)
         \<and> length (losses st) = (E * B) div nat print_every
         \<and> logged_steps (events st)
             = filter (\<lambda>k. k mod print_every = 0) [1..int (E * B)]
         \<and> (\<exists>c. replay net gen rnd (fst (np_uniform rnd (72, z_size) r0)) batch_size z_size
                   (events st)
                   \<lparr> r_steps = 0, r_sess = init,
                     r_rng = snd (np_uniform rnd (72, z_size) r0),
                     r_phase = Idle, r_losses = [], r_samples = [] \<rparr> = Some c
                \<and> r_sess c = sess st \<and> r_losses c = losses st)
         \<and> (\<forall>pe'. pe' \<noteq> 0 \<longrightarrow>
               (\<exists>d' st'. train_loop net gen rnd io glob z_size init r0 dataset (int E)
                            batch_size pe' show_every = Inr (d', st')
                        \<and> sess st' = sess st))"
proof -
  obtain sample_z r1 where u: "np_uniform rnd (72, z_size) r0 = (sample_z, r1)"
    by (cases "np_uniform rnd (72, z_size) r0")
  let ?st0 = "\<lparr> sess = init, rng = r1, steps = 0, losses = [], samples = [],
                 events = [] \<rparr> :: ('v, 'r, 'b, 'z, 'l, 'g) train_state"
  have pe0: "print_every \<noteq> 0" using pe by simp
  from run_epochs_total [OF pe0 se bs view len refl env sc,
      of net gen sample_z z_size E ?st0]
  obtain ds' st where
    re: "run_epochs net gen rnd io sample_z glob batch_size z_size print_every show_every
           E dataset ?st0 = Inr (ds', st)"
    and s: "steps st = int (E * B)"
    using B by auto
  have tl: "train_loop net gen rnd io glob z_size init r0 dataset (int E) batch_size
             print_every show_every = Inr (ds', st)"
    using re u by (simp add: train_loop_def)
  then have tr: "train net gen rnd io glob z_size init r0 dataset (int E) batch_size
             print_every show_every = Inr (losses st, samples st)"
    using save dump by (simp add: train_def)
  have inv: "logging_invariant print_every st"
  proof (rule run_epochs_invariant [where P = "logging_invariant print_every", OF _ _ _ re])
    show "logging_invariant print_every ?st0"
      by (simp add: logging_invariant_def)
  next
    fix a :: "('v, 'r, 'b, 'z, 'l, 'g) train_state" and r
    assume "logging_invariant print_every a"
    then show "logging_invariant print_every
                 (a\<lparr>rng := r, events := events a @ [NextEpoch r]\<rparr>)"
      by (simp add: logging_invariant_def logged_steps_append)
  next
    fix xy :: "'b \<times> 'y list" and a b :: "('v, 'r, 'b, 'z, 'l, 'g) train_state"
    assume "logging_invariant print_every a"
      and "train_step net gen rnd io sample_z batch_size z_size print_every show_every xy a
           = Inr b"
    with pe show "logging_invariant print_every b" by (rule logging_invariant_step)
  qed
  from inv s have "int (length (losses st)) = int (E * B) div print_every"
    and lg: "logged_steps (events st) = filter (\<lambda>k. k mod print_every = 0) [1..int (E * B)]"
    unfolding logging_invariant_def by simp_all
  then have "int (length (losses st)) = int ((E * B) div nat print_every)"
    using pe by (simp add: zdiv_int)
  then have ll: "length (losses st) = (E * B) div nat print_every" by (simp only: of_nat_eq_iff)
  from train_loop_replayed [OF tl] have rp:
    "\<exists>c. replay net gen rnd (fst (np_uniform rnd (72, z_size) r0)) batch_size z_size
                   (events st)
                   \<lparr> r_steps = 0, r_sess = init,
                     r_rng = snd (np_uniform rnd (72, z_size) r0),
                     r_phase = Idle, r_losses = [], r_samples = [] \<rparr> = Some c
                \<and> r_sess c = sess st \<and> r_losses c = losses st"
    unfolding replays_to_def by blast
  have free: "\<forall>pe'. pe' \<noteq> 0 \<longrightarrow>
               (\<exists>d' st'. train_loop net gen rnd io glob z_size init r0 dataset (int E)
                            batch_size pe' show_every = Inr (d', st')
                        \<and> sess st' = sess st)"
  proof (intro allI impI)
    fix pe' :: int assume p: "pe' \<noteq> 0"
    have "same_training ?st0 ?st0" by (simp add: same_training_def)
    from same_training_epochs [OF p this re] obtain b' where
      "run_epochs net gen rnd io sample_z glob batch_size z_size pe' show_every E dataset ?st0
         = Inr (ds', b')" and "same_training st b'" by blast
    then have "train_loop net gen rnd io glob z_size init r0 dataset (int E) batch_size
                 pe' show_every = Inr (ds', b') \<and> sess b' = sess st"
      using u by (simp add: train_loop_def same_training_def)
    then show "\<exists>d' st'. train_loop net gen rnd io glob z_size init r0 dataset (int E)
                           batch_size pe' show_every = Inr (d', st') \<and> sess st' = sess st"
      by blast
  qed
  from tl tr s ll lg rp free show ?thesis by blast
qed



theorem train_loss_history_witness:
  "\<exists>ds st. train_loop demo_net demo_run_generator demo_random demo_effects This 100 0 0
              (Dataset_init demo_small demo_test (1/2) True None) 2 1 2 3 = Inr (ds, st)
     \<and> train demo_net demo_run_generator demo_random demo_effects This 100 0 0
              (Dataset_init demo_small demo_test (1/2) True None) 2 1 2 3
         = Inr (losses st, samples st)
     \<and> steps st = 4 \<and> length (losses st) = 2 \<and> logged_steps (events st) = [2, 4]"
proof -
  let ?d = "Dataset_init demo_small demo_test (1/2) True None"
  have pe: "0 < (2::int)" and se: "(3::int) \<noteq> 0" and bs: "0 < (1::int)" by simp_all
  have len: "length (train_x ?d) = length (train_y ?d)"
    by (simp add: Dataset_init_def demo_small_def Let_def)
  have env: "shuffle ?d \<longrightarrow>
      (This :: (image, nat, npfloat list list) global_dataset) = This
      \<and> (\<forall>idx r. mset (fst (np_shuffle demo_random idx r)) = mset idx)"
    by (simp add: demo_random_def)
  have sc: "\<forall>x. x \<noteq> [] \<and> set x \<subseteq> set (train_x ?d) \<longrightarrow> (\<exists>s. scaler ?d x = Inr s)"
  proof (intro allI impI)
    fix x :: "image list" assume x: "x \<noteq> [] \<and> set x \<subseteq> set (train_x ?d)"
    then obtain img where "img \<in> set x" by (cases x) auto
    moreover from this x have "img \<noteq> []"
      by (auto simp: Dataset_init_def demo_small_def Let_def)
    ultimately have "concat x \<noteq> []" by auto
    then show "\<exists>s. scaler ?d x = Inr s"
      by (simp add: Dataset_init_def Let_def scale_def)
  qed
  have view: "\<forall>ss. view_samples demo_effects ss = None"
    and save: "\<forall>v. saver_save demo_effects v = None"
    and dump: "\<forall>ss. pickle_dump demo_effects ss = None"
    by (simp_all add: demo_effects_def)
  have B: "(2::nat) = (length (train_y ?d) + nat 1 - 1) div nat 1"
    by (simp add: Dataset_init_def demo_small_def Let_def)
  from train_loss_history [OF pe se bs len env sc view save dump B,
      of demo_net demo_run_generator 100 0 0 2]
  obtain ds st where
    "train_loop demo_net demo_run_generator demo_random demo_effects This 100 0 0 ?d
       (int 2) 1 2 3 = Inr (ds, st)"
    and "train demo_net demo_run_generator demo_random demo_effects This 100 0 0 ?d
       (int 2) 1 2 3 = Inr (losses st, samples st)"
    and "steps st = int (2 * 2)" and "length (losses st) = (2 * 2) div nat 2"
    and "logged_steps (events st) = filter (\<lambda>k. k mod 2 = 0) [1..int (2 * 2)]"
    by blast
  moreover have "filter (\<lambda>k. k mod 2 = 0) [1..(4::int)] = [2, 4]"
    by (simp add: upto.simps)
  ultimately show ?thesis by (intro exI [of _ ds] exI [of _ st]) simp
qed

end
